theory Spec2Isabelle
  imports Complex_Main "HOL-Library.Signed_Division" "HOL-Library.Multiset"
begin


section \<open>JavaScript numbers\<close>

text \<open>
  A JavaScript number is an IEEE 754 binary64 value: \<open>NaN\<close>, an infinity, or a finite
  value, kept here as the rational it denotes. The two zeros are one value; the program
  never divides by a zero it has computed and never prints a sign of zero.

  \<open>roundToDouble\<close> is the rounding every operation ends with: to the nearest
  representable value, a tie to the one with the even significand. A value with binary
  exponent \<open>e\<close> (at least \<open>-1022\<close>, the exponent the subnormal numbers share) is a multiple
  of \<open>2 powi (e - 52)\<close>; a result of \<open>2 powi 1024\<close> or more is an infinity.
\<close>

datatype js_number = NaN | Finite rat | PosInfinity | NegInfinity

text \<open>The number of binary digits of a positive integer.\<close>

function bitLength :: "int \<Rightarrow> int" where
  "bitLength n = (if n \<le> 0 then 0 else 1 + bitLength (n div 2))"
  by pat_completeness auto

termination
  by (relation "measure nat") auto

declare bitLength.simps [simp del]

text \<open>For \<open>q > 0\<close>, the exponent \<open>e\<close> with \<open>2 powi e \<le> q < 2 powi (e + 1)\<close>.\<close>

definition floorLog2 :: "rat \<Rightarrow> int" where
  "floorLog2 q =
     (let (p, d) = quotient_of q;
          k = bitLength p - bitLength d
      in if 2 powi k \<le> q then k else k - 1)"

definition roundHalfEven :: "rat \<Rightarrow> int" where
  "roundHalfEven q =
     (let f = \<lfloor>q\<rfloor>; r = q - of_int f
      in if r < 1 / 2 then f else if 1 / 2 < r then f + 1 else if even f then f else f + 1)"

definition roundToDouble :: "rat \<Rightarrow> js_number" where
  "roundToDouble q =
     (if q = 0 then Finite 0
      else (let a = \<bar>q\<bar>;
                e = max (floorLog2 a) (- 1022);
                ulp = 2 powi (e - 52);
                v = of_int (roundHalfEven (a / ulp)) * ulp
            in if 2 powi 1024 \<le> v then (if 0 < q then PosInfinity else NegInfinity)
               else Finite (if 0 < q then v else - v)))"

text \<open>The sign of a number, and the infinity (or \<open>NaN\<close>) of a sign.\<close>

definition signOf :: "js_number \<Rightarrow> int" where
  "signOf x =
     (case x of
        Finite a \<Rightarrow> (if 0 < a then 1 else if a < 0 then - 1 else 0)
      | PosInfinity \<Rightarrow> 1
      | NegInfinity \<Rightarrow> - 1
      | NaN \<Rightarrow> 0)"

definition infinityOf :: "int \<Rightarrow> js_number" where
  "infinityOf k = (if 0 < k then PosInfinity else if k < 0 then NegInfinity else NaN)"

text \<open>The operators \<open>*\<close>, \<open>/\<close> and the comparison \<open>x > 0\<close> on numbers.\<close>

definition jsTimes :: "js_number \<Rightarrow> js_number \<Rightarrow> js_number" where
  "jsTimes x y =
     (case (x, y) of
        (Finite a, Finite b) \<Rightarrow> roundToDouble (a * b)
      | _ \<Rightarrow> if x = NaN \<or> y = NaN then NaN else infinityOf (signOf x * signOf y))"

definition jsDivide :: "js_number \<Rightarrow> js_number \<Rightarrow> js_number" where
  "jsDivide x y =
     (case (x, y) of
        (Finite a, Finite b) \<Rightarrow> if b = 0 then infinityOf (signOf x) else roundToDouble (a / b)
      | (Finite a, _) \<Rightarrow> if y = NaN then NaN else Finite 0
      | (_, Finite b) \<Rightarrow> if x = NaN then NaN else infinityOf (signOf x * (if b < 0 then - 1 else 1))
      | _ \<Rightarrow> NaN)"

definition jsPositive :: "js_number \<Rightarrow> bool" where
  "jsPositive x = (case x of Finite a \<Rightarrow> 0 < a | PosInfinity \<Rightarrow> True | _ \<Rightarrow> False)"

text \<open>
  \<open>Number(formatUnits(x, 6))\<close>: \<open>formatUnits\<close> writes the exact decimal of \<open>x / 10^6\<close>, and
  \<open>Number\<close> reads a decimal string as the nearest number.
\<close>

definition numberOfUnits :: "int \<Rightarrow> js_number" where
  "numberOfUnits x = roundToDouble (of_int x / 1000000)"


section \<open>Allocation aggregation (useAllocationData)\<close>

text \<open>
  The hook reads \<open>totalAssets\<close> from the vault of every configured chain and turns the
  raw balances into whole percentages. Raw balances are JavaScript \<open>bigint\<close> values
  (modelled as \<open>int\<close>); \<open>/\<close> on \<open>bigint\<close> truncates towards zero, which is \<open>sdiv\<close>.
  The values read from the chain are \<open>uint256\<close>, hence natural numbers.
\<close>

record ChainConfig =
  chainId :: int
  name :: string
  vaultAddress :: "string option"
  rpcUrl :: string

definition CHAIN_CONFIGS :: "ChainConfig list" where
  "CHAIN_CONFIGS =
    [\<lparr>chainId = 421614, name = ''Arbitrum Sepolia'',
      vaultAddress = Some ''0xE168d95f8d1B8EC167A63c8E696076EC8EE95337'',
      rpcUrl = ''https://sepolia-rollup.arbitrum.io/rpc''\<rparr>,
     \<lparr>chainId = 84532, name = ''Base Sepolia'', vaultAddress = None,
      rpcUrl = ''https://sepolia.base.org''\<rparr>,
     \<lparr>chainId = 11155420, name = ''Optimism Sepolia'', vaultAddress = None,
      rpcUrl = ''https://sepolia.optimism.io''\<rparr>,
     \<lparr>chainId = 11155111, name = ''Ethereum Sepolia'', vaultAddress = None,
      rpcUrl = ''https://rpc.sepolia.org''\<rparr>]"

text \<open>
  \<open>readContract\<close> is the one external call: \<open>read c\<close> is \<open>Some v\<close> when the RPC read of
  \<open>totalAssets\<close> on chain \<open>c\<close> returns the \<open>uint256\<close> value \<open>v\<close>, and \<open>None\<close> when the
  client or the read throws. A balance result is the pair \<open>(chainId, balance)\<close>.
\<close>

type_synonym chain_read = "ChainConfig \<Rightarrow> nat option"

definition getVaultBalance :: "chain_read \<Rightarrow> ChainConfig \<Rightarrow> int \<times> int" where
  "getVaultBalance read config =
     (if vaultAddress config = None \<or> vaultAddress config = Some []
      then (chainId config, 0)
      else (case read config of
              Some totalAssets \<Rightarrow> (chainId config, int totalAssets)
            | None \<Rightarrow> (chainId config, 0)))"

definition balanceResults :: "chain_read \<Rightarrow> ChainConfig list \<Rightarrow> (int \<times> int) list" where
  "balanceResults read configs = map (getVaultBalance read) configs"

definition totalRaw :: "(int \<times> int) list \<Rightarrow> int" where
  "totalRaw results = foldl (\<lambda>sum result. sum + snd result) 0 results"

text \<open>
  An allocation item keeps the chain name and the percentage. The remaining display
  fields of the source (icon, apy, color) are constant table lookups by name.
\<close>

record AllocationItem =
  item_name :: string
  allocation :: int

definition configBalance :: "(int \<times> int) list \<Rightarrow> ChainConfig \<Rightarrow> int" where
  "configBalance results config =
     (case find (\<lambda>r. fst r = chainId config) results of
        Some result \<Rightarrow> snd result
      | None \<Rightarrow> 0)"

definition allocationPercent :: "int \<Rightarrow> int \<Rightarrow> int" where
  "allocationPercent totalRaw' balance =
     (if totalRaw' > 0 then (balance * 100) sdiv totalRaw' else 0)"

definition allocationItems :: "ChainConfig list \<Rightarrow> (int \<times> int) list \<Rightarrow> AllocationItem list" where
  "allocationItems configs results =
     map (\<lambda>config. \<lparr>item_name = name config,
                     allocation = allocationPercent (totalRaw results) (configBalance results config)\<rparr>)
         configs"

text \<open>
  \<open>Array.prototype.sort\<close> is stable; with the comparator \<open>b.allocation - a.allocation\<close>
  it orders by descending allocation. \<open>sort_key\<close> is a stable insertion sort.
\<close>

definition sortedAllocations :: "AllocationItem list \<Rightarrow> AllocationItem list" where
  "sortedAllocations items = sort_key (\<lambda>a. - allocation a) items"

definition mockAllocations :: "AllocationItem list" where
  "mockAllocations = sortedAllocations
     [\<lparr>item_name = ''Ethereum Sepolia'', allocation = 44\<rparr>,
      \<lparr>item_name = ''Arbitrum Sepolia'', allocation = 27\<rparr>,
      \<lparr>item_name = ''Base Sepolia'', allocation = 14\<rparr>,
      \<lparr>item_name = ''Optimism Sepolia'', allocation = 15\<rparr>]"

text \<open>
  The state the hook publishes: the allocation list and the total in USDC
  (\<open>Number(formatUnits(totalRaw, 6))\<close>). \<open>getVaultBalance\<close> catches every failure of its
  read, so nothing in the pass can throw and the outer \<open>catch\<close> of the source (all
  entries 0) is never entered. A percentage is at most 100, so \<open>Number\<close> of it is exact.
\<close>

record AllocationData =
  allocations :: "AllocationItem list"
  totalValue :: js_number

definition fetchAllocationData :: "bool \<Rightarrow> ChainConfig list \<Rightarrow> chain_read \<Rightarrow> AllocationData" where
  "fetchAllocationData useMock configs read =
     (if useMock then \<lparr>allocations = mockAllocations, totalValue = Finite 1234567\<rparr>
      else (let results = balanceResults read configs
            in \<lparr>allocations = sortedAllocations (allocationItems configs results),
                totalValue = numberOfUnits (totalRaw results)\<rparr>))"

text \<open>
  Two concrete runs used below: every chain of \<open>CHAIN_CONFIGS\<close> given a deployed vault,
  read once with one dominating balance and once with three equal balances and a failing
  read on Ethereum Sepolia.
\<close>

definition deployedConfigs :: "ChainConfig list" where
  "deployedConfigs =
     map (\<lambda>c. c\<lparr>vaultAddress := Some ''0xE168d95f8d1B8EC167A63c8E696076EC8EE95337''\<rparr>) CHAIN_CONFIGS"

definition dominatedRead :: chain_read where
  "dominatedRead c =
     (if chainId c = 421614 then Some 999 else if chainId c = 84532 then Some 1 else Some 0)"

definition thirdsRead :: chain_read where
  "thirdsRead c = (if chainId c = 11155111 then None else Some 1)"

text \<open>
  The figures of the specification, with which the result of the pass is compared: the raw
  balance that a network contributes (the value read from its deployed vault, and zero
  when the vault is not deployed or the read fails), the total of these balances, the
  floor of \<open>100 * b / T\<close>, and the entry expected for every configured network.
\<close>

definition rawBalance :: "chain_read \<Rightarrow> ChainConfig \<Rightarrow> int" where
  "rawBalance read c =
     (case vaultAddress c of
        None \<Rightarrow> 0
      | Some a \<Rightarrow> if a = [] then 0 else (case read c of None \<Rightarrow> 0 | Some v \<Rightarrow> int v))"

definition totalBalance :: "chain_read \<Rightarrow> ChainConfig list \<Rightarrow> int" where
  "totalBalance read configs = (\<Sum>c\<leftarrow>configs. rawBalance read c)"

definition floorPercent :: "int \<Rightarrow> int \<Rightarrow> int" where
  "floorPercent T b = \<lfloor>(100 * of_int b :: rat) / of_int T\<rfloor>"

definition expectedItems :: "chain_read \<Rightarrow> ChainConfig list \<Rightarrow> AllocationItem list" where
  "expectedItems read configs =
     map (\<lambda>c. \<lparr>item_name = name c,
                 allocation = floorPercent (totalBalance read configs) (rawBalance read c)\<rparr>)
         configs"

section \<open>Balance reconciliation (usePerformanceData)\<close>

text \<open>
  The three contract reads are \<open>bigint | undefined\<close>; the hook turns each into a JavaScript
  number with \<open>Number(formatUnits(x, 6))\<close>, and an undefined or zero read into 0. The
  value and the share price are computed with the operators of JavaScript numbers, each
  of which rounds its result.
\<close>

definition readNumber :: "nat option \<Rightarrow> js_number" where
  "readNumber r = (case r of None \<Rightarrow> Finite 0 | Some x \<Rightarrow> if x = 0 then Finite 0 else numberOfUnits (int x))"

record UserPosition =
  userVaultValue :: js_number
  sharePrice :: js_number

definition vaultValue :: "js_number \<Rightarrow> js_number \<Rightarrow> js_number \<Rightarrow> UserPosition" where
  "vaultValue userShares totalAssetValue totalSupplyValue =
     (if jsPositive userShares \<and> jsPositive totalAssetValue \<and> jsPositive totalSupplyValue
      then \<lparr>userVaultValue = jsDivide (jsTimes userShares totalAssetValue) totalSupplyValue,
            sharePrice = jsDivide totalAssetValue totalSupplyValue\<rparr>
      else if jsPositive userShares
      then \<lparr>userVaultValue = userShares, sharePrice = Finite 1\<rparr>
      else \<lparr>userVaultValue = Finite 0, sharePrice = Finite 1\<rparr>)"

definition userPosition :: "nat option \<Rightarrow> nat option \<Rightarrow> nat option \<Rightarrow> UserPosition" where
  "userPosition userShareBalance contractTotalAssets contractTotalSupply =
     vaultValue (readNumber userShareBalance) (readNumber contractTotalAssets)
       (readNumber contractTotalSupply)"

section \<open>Amount input (sanitizeAmountInput)\<close>

text \<open>
  Strings are lists of bytes. Every character the sanitizer keeps is ASCII, and every byte of
  a non-ASCII character is removed by the first step, so byte counts and JavaScript's
  code-unit counts agree on everything that is kept.
\<close>

text \<open>The characters that the pattern \<open>/[^0-9.]/g\<close> leaves in place.\<close>

definition isAmountChar :: "char \<Rightarrow> bool" where
  "isAmountChar c = (c \<in> set ''0123456789.'')"

definition keepNumeric :: "string \<Rightarrow> string" where
  "keepNumeric v = filter isAmountChar v"

text \<open>\<open>String.prototype.split('.')\<close>: the pieces between the points; one piece for a string without a point.\<close>

fun split_dot :: "string \<Rightarrow> string list" where
  "split_dot [] = [[]]"
| "split_dot (c # cs) =
     (if c = CHR ''.'' then [] # split_dot cs
      else (case split_dot cs of
              p # ps \<Rightarrow> (c # p) # ps
            | [] \<Rightarrow> [[c]]))"

definition sanitizeAmountInput :: "string \<Rightarrow> string" where
  "sanitizeAmountInput v =
     (let sanitized = keepNumeric v;
          parts = split_dot sanitized;
          sanitized = (if length parts > 2
                       then parts ! 0 @ ''.'' @ concat (drop 1 parts)
                       else sanitized);
          sanitized = (if length parts = 2 \<and> length (parts ! 1) > 6
                       then parts ! 0 @ ''.'' @ take 6 (parts ! 1)
                       else sanitized)
      in sanitized)"

definition countDots :: "string \<Rightarrow> nat" where
  "countDots s = length (filter (\<lambda>c. c = CHR ''.'') s)"

definition fractionDigits :: "string \<Rightarrow> nat" where
  "fractionDigits s = length (drop 1 (dropWhile (\<lambda>c. c \<noteq> CHR ''.'') s))"

section \<open>Chain registry (contracts)\<close>

record Addresses =
  localhost :: string
  ethereum :: string
  baseSepolia :: string
  arbitrumSepolia :: string
  optimismSepolia :: string

definition CONTRACT_ADDRESSES :: Addresses where
  "CONTRACT_ADDRESSES =
     \<lparr>localhost = ''0x610178dA211FEF7D417bC0e6FeD39F05609AD788'',
      ethereum = ''0x87870Bca3F3fD6335C3F4ce8392D69350B4fA4E2'',
      baseSepolia = ''0x773035EABdA16B5416B26E12156483C6B6F56451'',
      arbitrumSepolia = ''0xE168d95f8d1B8EC167A63c8E696076EC8EE95337'',
      optimismSepolia = ''''\<rparr>"

definition USDC_ADDRESSES :: Addresses where
  "USDC_ADDRESSES =
     \<lparr>localhost = ''0x16f18Ee01365Ef23E0564dfB635215A5B4Eaa3c4'',
      ethereum = ''0xA0b86a33E6441E43941295AaE15D29a6E6e98959'',
      baseSepolia = ''0x036CbD53842c5426634e7929541eC2318f3dCF7e'',
      arbitrumSepolia = ''0x75faf114eafb1BDbe2F0316DF893fd58CE46AA4d'',
      optimismSepolia = ''0x5fd84259d66Cd46123540766Be93DFE6D43130D7''\<rparr>"

text \<open>A thrown \<open>Error\<close> is a value carrying its message; chain ids are integers.\<close>

datatype js_error = JsError (message: string)

function showNat :: "nat \<Rightarrow> string" where
  "showNat n = (if n < 10 then [''0123456789'' ! n]
                else showNat (n div 10) @ [''0123456789'' ! (n mod 10)])"
  by pat_completeness auto
termination
  by (relation "measure id") auto

definition showInt :: "int \<Rightarrow> string" where
  "showInt i = (if i < 0 then ''-'' @ showNat (nat (- i)) else showNat (nat i))"

definition unsupportedChain :: "int \<Rightarrow> js_error" where
  "unsupportedChain cid =
     JsError (''Unsupported chain ID: '' @ showInt cid @
       ''. Supported networks: Ethereum (1), Base Sepolia (84532), Arbitrum Sepolia (421614), Optimism Sepolia (11155420), or Localhost (31337).'')"

definition getContractAddress :: "int \<Rightarrow> js_error + string" where
  "getContractAddress cid =
     (if cid = 31337 then Inr (localhost CONTRACT_ADDRESSES)
      else if cid = 1 then Inr (ethereum CONTRACT_ADDRESSES)
      else if cid = 84532 then Inr (baseSepolia CONTRACT_ADDRESSES)
      else if cid = 421614 then
        (if arbitrumSepolia CONTRACT_ADDRESSES = []
         then Inl (JsError ''AAVE Vault not yet deployed on Arbitrum Sepolia. Coming soon!'')
         else Inr (arbitrumSepolia CONTRACT_ADDRESSES))
      else if cid = 11155420 then
        (if optimismSepolia CONTRACT_ADDRESSES = []
         then Inl (JsError ''AAVE Vault not yet deployed on Optimism Sepolia. Coming soon!'')
         else Inr (optimismSepolia CONTRACT_ADDRESSES))
      else Inl (unsupportedChain cid))"

definition getUSDCAddress :: "int \<Rightarrow> js_error + string" where
  "getUSDCAddress cid =
     (if cid = 31337 then Inr (localhost USDC_ADDRESSES)
      else if cid = 1 then Inr (ethereum USDC_ADDRESSES)
      else if cid = 84532 then Inr (baseSepolia USDC_ADDRESSES)
      else if cid = 421614 then Inr (arbitrumSepolia USDC_ADDRESSES)
      else if cid = 11155420 then Inr (optimismSepolia USDC_ADDRESSES)
      else Inl (unsupportedChain cid))"


section \<open>Deposit and withdrawal orchestration (BalanceFigma)\<close>

subsection \<open>Library functions taken as parameters\<close>

text \<open>
  \<open>parseFloat\<close>, \<open>BigInt\<close>, \<open>Number.prototype.toFixed\<close>, \<open>String.prototype.trim\<close>, the regular
  expression match of \<open>getCleanErrorMessage\<close> and viem's \<open>parseUnits\<close> are not code of the
  repository: the model takes them as parameters. A function that can throw returns the
  thrown error on the left.
\<close>

record env =
  parseFloat :: "string \<Rightarrow> js_number"
  parseUnits :: "string \<Rightarrow> nat \<Rightarrow> js_error + int"
  BigInt :: "string \<Rightarrow> js_error + int"
  toFixed :: "rat \<Rightarrow> nat \<Rightarrow> string"
  trim :: "string \<Rightarrow> string"
  matchRevertReason :: "string \<Rightarrow> string option"

definition isValidAmount :: "env \<Rightarrow> string \<Rightarrow> bool" where
  "isValidAmount e v =
     (if v = [] \<or> v = ''.'' then False
      else (case parseFloat e v of Finite num \<Rightarrow> num > 0 | _ \<Rightarrow> False))"

subsection \<open>String helpers\<close>

fun startsWith :: "string \<Rightarrow> string \<Rightarrow> bool" where
  "startsWith s [] = True"
| "startsWith [] (p # ps) = False"
| "startsWith (c # cs) (p # ps) = (c = p \<and> startsWith cs ps)"

fun includes_str :: "string \<Rightarrow> string \<Rightarrow> bool" where
  "includes_str [] p = (p = [])"
| "includes_str (c # cs) p = (startsWith (c # cs) p \<or> includes_str cs p)"

text \<open>
  \<open>toLowerCase\<close> on the ASCII letters. The only other code points whose lower case holds an
  ASCII letter give \<open>k\<close>, or \<open>i\<close> followed by a combining mark, which no pattern searched
  below can match.
\<close>

definition toLowerChar :: "char \<Rightarrow> char" where
  "toLowerChar c =
     (case map_of (zip ''ABCDEFGHIJKLMNOPQRSTUVWXYZ'' ''abcdefghijklmnopqrstuvwxyz'') c of
        Some l \<Rightarrow> l
      | None \<Rightarrow> c)"

definition toLowerCase :: "string \<Rightarrow> string" where
  "toLowerCase s = map toLowerChar s"

text \<open>\<open>a || b\<close> on strings: the empty string is falsy.\<close>

definition orElse :: "string \<Rightarrow> string \<Rightarrow> string" where
  "orElse a b = (if a = [] then b else a)"

text \<open>\<open>s.split(sep)[0]\<close>: the part of \<open>s\<close> before the first occurrence of \<open>sep\<close>.\<close>

fun beforeFirst :: "string \<Rightarrow> string \<Rightarrow> string" where
  "beforeFirst sep [] = []"
| "beforeFirst sep (c # cs) = (if startsWith (c # cs) sep then [] else c # beforeFirst sep cs)"

subsection \<open>Error classification\<close>

definition isMetaMaskSimulationError :: "string \<Rightarrow> bool" where
  "isMetaMaskSimulationError msg =
     (includes_str msg ''Internal JSON-RPC error'' \<or> includes_str msg ''-32603'')"

text \<open>The helper of the transaction watcher (first effect).\<close>

definition isUserRejection :: "string \<Rightarrow> bool" where
  "isUserRejection m =
     (let msg = toLowerCase m
      in includes_str msg ''user rejected'' \<or> includes_str msg ''rejected'' \<or> includes_str msg ''denied''
         \<or> includes_str msg ''userrequestrejected'')"

text \<open>The helper of the same name in the second effect.\<close>

definition isUserRejection2 :: "string \<Rightarrow> bool" where
  "isUserRejection2 m =
     (let msg = toLowerCase m
      in includes_str msg ''user rejected'' \<or> includes_str msg ''rejected'' \<or> includes_str msg ''denied''
         \<or> includes_str msg ''cancelled'' \<or> includes_str msg ''canceled'')"

definition getCleanErrorMessage :: "env \<Rightarrow> string \<Rightarrow> string \<Rightarrow> string" where
  "getCleanErrorMessage e msg action =
     (if includes_str msg ''insufficient funds'' then ''Insufficient funds for gas fees.''
      else if includes_str msg ''SignatureExpired'' then ''Signature expired. Please try again.''
      else if includes_str msg ''InvalidSignature'' then ''Invalid signature from oracle. Please try again.''
      else if includes_str msg ''InvalidAmount'' then ''Invalid amount. Please check your input.''
      else if includes_str msg ''reverted'' then
        (case matchRevertReason e msg of
           Some reason \<Rightarrow> action @ '' failed: '' @ take 100 reason
         | None \<Rightarrow> action @ '' failed: Transaction reverted. Please try again.'')
      else (let cleanMsg = trim e (beforeFirst ''Contract Call:'' msg)
            in if length cleanMsg > 150 then take 150 cleanMsg @ ''...''
               else orElse cleanMsg (action @ '' failed. Please try again.'')))"

definition simulationErrorApproval :: string where
  "simulationErrorApproval =
     ''MetaMask reported an error, but this may be a false negative on testnets. '' @
     ''Please check Arbiscan to verify, then try again. Consider using Rabby wallet.''"

definition simulationErrorTransaction :: string where
  "simulationErrorTransaction =
     ''MetaMask reported an error, but this may be a false negative on testnets. '' @
     ''Please check Arbiscan to verify your transaction. Consider using Rabby wallet.''"

subsection \<open>Component state\<close>

datatype view = BalanceView | DepositView | WithdrawView

datatype deposit_step = DepositInput | Approving | Depositing | DepositConfirming | DepositError

datatype withdraw_step = WithdrawInput | Withdrawing | WithdrawConfirming | WithdrawError

text \<open>
  One \<open>useWriteContract\<close> hook together with the \<open>useWaitForTransactionReceipt\<close> hook fed with
  its hash: idle (after \<open>reset\<close>), waiting for the wallet, failed in the wallet, or
  submitted under a hash whose receipt is still loading, reports success, or reports an error.
\<close>

datatype receipt = Loading | Succeeded | Reverted

datatype tx_state = Idle | Pending | WriteFailed string | Submitted string receipt

definition isPending :: "tx_state \<Rightarrow> bool" where
  "isPending t = (t = Pending)"

definition writeError :: "tx_state \<Rightarrow> string option" where
  "writeError t = (case t of WriteFailed m \<Rightarrow> Some m | _ \<Rightarrow> None)"

definition txHash :: "tx_state \<Rightarrow> string option" where
  "txHash t = (case t of Submitted h r \<Rightarrow> Some h | _ \<Rightarrow> None)"

definition isTxLoading :: "tx_state \<Rightarrow> bool" where
  "isTxLoading t = (case t of Submitted h Loading \<Rightarrow> True | _ \<Rightarrow> False)"

definition isTxSuccess :: "tx_state \<Rightarrow> bool" where
  "isTxSuccess t = (case t of Submitted h Succeeded \<Rightarrow> True | _ \<Rightarrow> False)"

definition isTxError :: "tx_state \<Rightarrow> bool" where
  "isTxError t = (case t of Submitted h Reverted \<Rightarrow> True | _ \<Rightarrow> False)"

text \<open>The oracle's answer, and the tuple handed to the vault.\<close>

record OracleSnapshot =
  balance :: string
  nonce :: string
  deadline :: string
  assets :: string
  receiver :: string
  signature :: string

datatype snapshot_tuple = CrossChainBalanceSnapshot int int int int string

datatype contract_call =
    approve string int
  | deposit int string
  | depositWithExtraInfoViaSignature int string snapshot_tuple string
  | withdraw int string string

record write_request =
  target :: string
  call :: contract_call
  gas :: int

text \<open>
  What a suspended continuation has captured: \<open>handleConfirmDeposit\<close> reads \<open>address\<close>,
  \<open>chainId\<close> and \<open>depositAmount\<close> of the render that created it, and after the oracle call
  it still holds \<open>amountInWei\<close>, \<open>address\<close> and \<open>chainId\<close>.
\<close>

record closure =
  c_address :: "string option"
  c_chainId :: "int option"
  c_depositAmount :: string

type_synonym oracle_request = "int \<times> string \<times> int"

text \<open>
  The state of the component: what the account and contract-read hooks return (the
  allowance is a bigint, or undefined while the read has no result), the \<open>useState\<close> cells,
  the two write hooks with their receipt watchers, the requests handed to the wallet so
  far, and the continuations that wait for the oracle or for a re-read of the allowance.
\<close>

record component =
  address :: "string option"
  accountChainId :: "int option"
  isConnected :: bool
  hasDeposits :: bool
  usdcAllowance :: "int option"
  userTotalValue :: rat
  currentState :: view
  depositAmount :: string
  withdrawAmount :: string
  depositStep :: deposit_step
  withdrawStep :: withdraw_step
  errorMessage :: string
  depositValidationError :: string
  withdrawValidationError :: string
  usdcTx :: tx_state
  vaultTx :: tx_state
  submitted :: "write_request list"
  oracleRequests :: "oracle_request list"
  allowanceRereads :: "closure list"

definition closureOf :: "component \<Rightarrow> closure" where
  "closureOf s = \<lparr>c_address = address s, c_chainId = accountChainId s,
                  c_depositAmount = depositAmount s\<rparr>"

text \<open>
  \<open>writeUSDC\<close> and \<open>writeVault\<close> hand a request to the wallet: the hook goes to pending and
  the request joins the list of everything submitted so far.
\<close>

definition writeUSDC :: "write_request \<Rightarrow> component \<Rightarrow> component" where
  "writeUSDC req s = s\<lparr>usdcTx := Pending, submitted := submitted s @ [req]\<rparr>"

definition writeVault :: "write_request \<Rightarrow> component \<Rightarrow> component" where
  "writeVault req s = s\<lparr>vaultTx := Pending, submitted := submitted s @ [req]\<rparr>"

subsection \<open>Handlers\<close>

definition hasEnoughAllowance :: "env \<Rightarrow> component \<Rightarrow> string \<Rightarrow> bool" where
  "hasEnoughAllowance e s amount =
     (case usdcAllowance s of
        None \<Rightarrow> False
      | Some allowance \<Rightarrow>
          if allowance = 0 \<or> amount = [] \<or> \<not> isValidAmount e amount then False
          else (case parseUnits e amount 6 of
                  Inl err \<Rightarrow> False
                | Inr depositAmountInWei \<Rightarrow> allowance \<ge> depositAmountInWei))"

definition handleDeposit :: "component \<Rightarrow> component" where
  "handleDeposit s = s\<lparr>currentState := DepositView, depositStep := DepositInput, depositAmount := []\<rparr>"

definition handleWithdrawClick :: "component \<Rightarrow> component" where
  "handleWithdrawClick s = s\<lparr>currentState := WithdrawView\<rparr>"

definition handleCancel :: "component \<Rightarrow> component" where
  "handleCancel s =
     s\<lparr>currentState := BalanceView, depositStep := DepositInput, withdrawStep := WithdrawInput,
       depositAmount := [], withdrawAmount := [], errorMessage := [],
       depositValidationError := [], withdrawValidationError := []\<rparr>"

definition handleRetry :: "component \<Rightarrow> component" where
  "handleRetry s = s\<lparr>depositStep := DepositInput, errorMessage := []\<rparr>"

definition resetErrors :: "component \<Rightarrow> component" where
  "resetErrors s = s\<lparr>errorMessage := []\<rparr>"

definition maxAmount :: int where
  "maxAmount = 2 ^ 256 - 1"

definition handleApproveUSDC :: "env \<Rightarrow> component \<Rightarrow> component" where
  "handleApproveUSDC e s =
     (case (address s, accountChainId s) of
        (Some a, Some cid) \<Rightarrow>
          if a = [] \<or> cid = 0 \<or> depositAmount s = [] then s
          else if \<not> isValidAmount e (depositAmount s)
          then s\<lparr>depositValidationError := ''Please enter a valid amount''\<rparr>
          else (let s1 = (resetErrors s)\<lparr>usdcTx := Idle, depositStep := Approving\<rparr>
                in case getUSDCAddress cid of
                     Inl err \<Rightarrow> s1
                   | Inr usdc \<Rightarrow>
                       (case getContractAddress cid of
                          Inl err \<Rightarrow> s1
                        | Inr vault \<Rightarrow>
                            writeUSDC \<lparr>target = usdc, call = approve vault maxAmount,
                                       gas = 100000\<rparr> s1))
      | _ \<Rightarrow> s)"

text \<open>The \<open>catch\<close> block of \<open>handleConfirmDeposit\<close>.\<close>

definition depositSetupFailed :: "js_error \<Rightarrow> component \<Rightarrow> component" where
  "depositSetupFailed err s =
     s\<lparr>depositStep := DepositError,
       errorMessage :=
         (if includes_str (message err) ''Oracle''
          then ''Oracle service error: '' @ orElse (message err) ''Unable to get signature.''
          else ''Deposit failed: '' @ orElse (message err) ''Please check your wallet and try again.'')\<rparr>"

text \<open>
  \<open>handleConfirmDeposit\<close> up to \<open>await getDepositSignature(...)\<close>: the guards, the reset, the
  step change and the request to the oracle, which stays outstanding until it is answered.
\<close>

definition handleConfirmDeposit :: "env \<Rightarrow> closure \<Rightarrow> component \<Rightarrow> component" where
  "handleConfirmDeposit e c s =
     (case (c_address c, c_chainId c) of
        (Some a, Some cid) \<Rightarrow>
          if a = [] \<or> cid = 0 \<or> c_depositAmount c = [] then s
          else if \<not> isValidAmount e (c_depositAmount c)
          then s\<lparr>depositValidationError := ''Please enter a valid amount''\<rparr>
          else (let s1 = (resetErrors s)\<lparr>vaultTx := Idle, depositStep := Depositing\<rparr>
                in case parseUnits e (c_depositAmount c) 6 of
                     Inl err \<Rightarrow> depositSetupFailed err s1
                   | Inr amountInWei \<Rightarrow>
                       s1\<lparr>oracleRequests := oracleRequests s1 @ [(amountInWei, a, cid)]\<rparr>)
      | _ \<Rightarrow> s)"

text \<open>The test \<open>snapshot.balance === '0' || BigInt(snapshot.balance) === BigInt(0)\<close>.\<close>

definition noCrossChainAssets :: "env \<Rightarrow> OracleSnapshot \<Rightarrow> js_error + bool" where
  "noCrossChainAssets e snapshot =
     (if balance snapshot = ''0'' then Inr True
      else (case BigInt e (balance snapshot) of
              Inl err \<Rightarrow> Inl err
            | Inr b \<Rightarrow> Inr (b = 0)))"

text \<open>
  The argument of \<open>writeVault\<close> chosen from the snapshot, or the error thrown while it is
  built (by \<open>BigInt\<close> or by \<open>getContractAddress\<close>), in the order of evaluation of the source.
\<close>

definition depositRequest :: "env \<Rightarrow> oracle_request \<Rightarrow> OracleSnapshot \<Rightarrow> js_error + write_request" where
  "depositRequest e req snapshot =
     (case req of (amountInWei, a, cid) \<Rightarrow>
       (case noCrossChainAssets e snapshot of
          Inl err \<Rightarrow> Inl err
        | Inr True \<Rightarrow>
            (case getContractAddress cid of
               Inl err \<Rightarrow> Inl err
             | Inr vault \<Rightarrow> Inr \<lparr>target = vault, call = deposit amountInWei a, gas = 350000\<rparr>)
        | Inr False \<Rightarrow>
            (case getContractAddress cid of
               Inl err \<Rightarrow> Inl err
             | Inr vault \<Rightarrow>
                 (case BigInt e (balance snapshot) of Inl err \<Rightarrow> Inl err | Inr b \<Rightarrow>
                  (case BigInt e (nonce snapshot) of Inl err \<Rightarrow> Inl err | Inr n \<Rightarrow>
                   (case BigInt e (deadline snapshot) of Inl err \<Rightarrow> Inl err | Inr d \<Rightarrow>
                    (case BigInt e (assets snapshot) of Inl err \<Rightarrow> Inl err | Inr x \<Rightarrow>
                       Inr \<lparr>target = vault,
                            call = depositWithExtraInfoViaSignature amountInWei a
                                     (CrossChainBalanceSnapshot b n d x (receiver snapshot))
                                     (signature snapshot),
                            gas = 350000\<rparr>)))))))"

text \<open>The rest of \<open>handleConfirmDeposit\<close>, run when the oracle call returns or throws.\<close>

definition confirmDepositResume ::
    "env \<Rightarrow> oracle_request \<Rightarrow> js_error + OracleSnapshot \<Rightarrow> component \<Rightarrow> component" where
  "confirmDepositResume e req reply s =
     (case reply of
        Inl err \<Rightarrow> depositSetupFailed err s
      | Inr snapshot \<Rightarrow>
          (case depositRequest e req snapshot of
             Inl err \<Rightarrow> depositSetupFailed err s
           | Inr w \<Rightarrow> writeVault w s))"

definition handleInitiateDeposit :: "env \<Rightarrow> component \<Rightarrow> component" where
  "handleInitiateDeposit e s =
     (if depositAmount s = [] then s
      else if hasEnoughAllowance e s (depositAmount s)
      then handleConfirmDeposit e (closureOf s) s
      else handleApproveUSDC e s)"

definition hasEnoughWithdrawBalance :: "env \<Rightarrow> component \<Rightarrow> bool" where
  "hasEnoughWithdrawBalance e s =
     (userTotalValue s > 0 \<and> isValidAmount e (withdrawAmount s) \<and>
      (case parseFloat e (withdrawAmount s) of
         Finite num \<Rightarrow> num \<le> userTotalValue s
       | NegInfinity \<Rightarrow> True
       | _ \<Rightarrow> False))"

definition canWithdraw :: "env \<Rightarrow> component \<Rightarrow> bool" where
  "canWithdraw e s =
     (withdrawAmount s \<noteq> [] \<and> isValidAmount e (withdrawAmount s) \<and> hasEnoughWithdrawBalance e s
      \<and> \<not> isPending (vaultTx s) \<and> withdrawValidationError s = [])"

definition handleWithdraw :: "env \<Rightarrow> component \<Rightarrow> component" where
  "handleWithdraw e s =
     (case (address s, accountChainId s) of
        (Some a, Some cid) \<Rightarrow>
          if withdrawAmount s = [] \<or> cid = 0 \<or> a = [] \<or> \<not> canWithdraw e s then s
          else if \<not> isValidAmount e (withdrawAmount s)
          then s\<lparr>withdrawValidationError := ''Please enter a valid amount''\<rparr>
          else (let s1 = s\<lparr>withdrawStep := Withdrawing, vaultTx := Idle\<rparr>
                in case parseUnits e (withdrawAmount s) 6 of
                     Inl err \<Rightarrow> s1
                   | Inr assetsWei \<Rightarrow>
                       (case getContractAddress cid of
                          Inl err \<Rightarrow> s1
                        | Inr vault \<Rightarrow>
                            writeVault \<lparr>target = vault, call = withdraw assetsWei a a,
                                        gas = 350000\<rparr> s1))
      | _ \<Rightarrow> s)"


subsection \<open>Effects\<close>

text \<open>
  An effect runs after a render and sees the values of that render (\<open>snap\<close>); the state
  updates it issues are applied to the current state. The first effect watches the two
  transactions. Its branch for a wallet-simulation error on the approval starts the
  re-read of the allowance, whose continuation stays outstanding, and returns from the
  effect, so the two blocks after it are skipped.
\<close>

definition approvalSucceeded :: "env \<Rightarrow> component \<Rightarrow> component \<Rightarrow> component" where
  "approvalSucceeded e snap s =
     (if isTxSuccess (usdcTx snap) \<and> depositStep snap = Approving
      then handleConfirmDeposit e (closureOf snap) s else s)"

definition vaultSucceeded :: "component \<Rightarrow> component \<Rightarrow> component" where
  "vaultSucceeded snap s =
     (let s1 = (if isTxSuccess (vaultTx snap) \<and>
                   (depositStep snap = Depositing \<or> depositStep snap = DepositError)
                then s\<lparr>depositStep := DepositConfirming\<rparr> else s)
      in if isTxSuccess (vaultTx snap) \<and>
            (withdrawStep snap = Withdrawing \<or> withdrawStep snap = WithdrawError)
         then s1\<lparr>withdrawStep := WithdrawConfirming\<rparr> else s1)"

definition receiptFailed :: "component \<Rightarrow> component \<Rightarrow> component" where
  "receiptFailed snap s =
     (let s1 = (if isTxError (usdcTx snap) \<and> depositStep snap = Approving
                then s\<lparr>depositStep := DepositError,
                       errorMessage := ''USDC approval transaction reverted. Please try again.''\<rparr>
                else s);
          s2 = (if isTxError (vaultTx snap) \<and> depositStep snap = Depositing
                then s1\<lparr>depositStep := DepositError,
                        errorMessage := ''Deposit transaction reverted on-chain. Please try again.''\<rparr>
                else s1)
      in if isTxError (vaultTx snap) \<and> withdrawStep snap = Withdrawing
         then s2\<lparr>withdrawStep := WithdrawError,
                 errorMessage := ''Withdrawal transaction reverted on-chain. Please try again.''\<rparr>
         else s2)"

definition vaultWriteFailed :: "component \<Rightarrow> component \<Rightarrow> component" where
  "vaultWriteFailed snap s =
     (case writeError (vaultTx snap) of
        None \<Rightarrow> s
      | Some m \<Rightarrow>
          (let msgD = (if isUserRejection m
                       then ''Transaction was rejected. Please try again if you want to proceed.''
                       else if isMetaMaskSimulationError m then simulationErrorTransaction
                       else ''Deposit failed: '' @ orElse m ''Please try again.'');
               msgW = (if isUserRejection m
                       then ''Transaction was rejected. Please try again if you want to proceed.''
                       else if isMetaMaskSimulationError m then simulationErrorTransaction
                       else ''Withdrawal failed: '' @ orElse m ''Please try again.'');
               s1 = (if depositStep snap = Depositing
                     then s\<lparr>depositStep := DepositError, errorMessage := msgD\<rparr> else s)
           in if withdrawStep snap = Withdrawing
              then s1\<lparr>withdrawStep := WithdrawError, errorMessage := msgW\<rparr> else s1))"

definition transactionEffect :: "env \<Rightarrow> component \<Rightarrow> component \<Rightarrow> component" where
  "transactionEffect e snap s =
     (let s1 = receiptFailed snap (vaultSucceeded snap (approvalSucceeded e snap s))
      in case writeError (usdcTx snap) of
           None \<Rightarrow> vaultWriteFailed snap s1
         | Some m \<Rightarrow>
             if depositStep snap \<noteq> Approving then vaultWriteFailed snap s1
             else if isUserRejection m
             then vaultWriteFailed snap
                    (s1\<lparr>depositStep := DepositError,
                        errorMessage := ''Transaction was rejected. Please try again if you want to proceed.''\<rparr>)
             else if isMetaMaskSimulationError m
             then s1\<lparr>allowanceRereads := allowanceRereads s1 @ [closureOf snap]\<rparr>
             else vaultWriteFailed snap
                    (s1\<lparr>depositStep := DepositError,
                        errorMessage := ''Approval failed: '' @ orElse m ''Please try again.''\<rparr>))"

text \<open>The second effect: every wallet error of the step in progress ends the step.\<close>

definition walletErrorEffect :: "env \<Rightarrow> component \<Rightarrow> component \<Rightarrow> component" where
  "walletErrorEffect e snap s =
     (let s1 = (case writeError (usdcTx snap) of
                  None \<Rightarrow> s
                | Some m \<Rightarrow>
                    if depositStep snap = Approving
                    then s\<lparr>depositStep := DepositError,
                           errorMessage := (if isUserRejection2 m then ''Approval was cancelled in wallet.''
                                            else getCleanErrorMessage e m ''Approval'')\<rparr>
                    else s)
      in case writeError (vaultTx snap) of
           None \<Rightarrow> s1
         | Some m \<Rightarrow>
             (let s2 = (if depositStep snap = Depositing
                        then s1\<lparr>depositStep := DepositError,
                                errorMessage := (if isUserRejection2 m then ''Deposit was cancelled in wallet.''
                                                 else getCleanErrorMessage e m ''Deposit'')\<rparr>
                        else s1)
              in if withdrawStep snap = Withdrawing
                 then s2\<lparr>withdrawStep := WithdrawError,
                         errorMessage := (if isUserRejection2 m then ''Withdrawal was cancelled in wallet.''
                                          else getCleanErrorMessage e m ''Withdrawal'')\<rparr>
                 else s2))"

definition effects :: "env \<Rightarrow> component \<Rightarrow> component" where
  "effects e s = walletErrorEffect e s (transactionEffect e s s)"

text \<open>
  After an event the component renders and runs its effects; their updates cause a further
  render and a further round. Two rounds reach a state that a further round does not
  change (lemma \<open>commit_stable\<close> below).
\<close>

definition commit :: "env \<Rightarrow> component \<Rightarrow> component" where
  "commit e s = effects e (effects e s)"

subsection \<open>Events\<close>

text \<open>
  User actions on the controls the component renders, the trigger registered with the
  deposit context, the outcomes reported by the wallet and by the receipt watcher, and the
  completion of the outstanding asynchronous calls (chosen by position).
\<close>

datatype event =
    ClickDeposit
  | TriggerDeposit
  | ClickWithdrawNav
  | ChangeDepositAmount string
  | BlurDepositAmount
  | ClickInitiateDeposit
  | ClickConfirm
  | ClickCancel
  | ClickRetry
  | ClickDone
  | ChangeWithdrawAmount string
  | BlurWithdrawAmount
  | ClickMax
  | ClickWithdraw
  | ClickWithdrawRetry
  | ClickWithdrawDone
  | UsdcWriteSubmitted string
  | UsdcWriteFailed string
  | UsdcReceipt bool
  | VaultWriteSubmitted string
  | VaultWriteFailed string
  | VaultReceipt bool
  | OracleReplied nat "js_error + OracleSnapshot"
  | AllowanceReread nat "int option"
  | ReadsRefreshed "int option" rat bool

text \<open>Which controls are rendered and not disabled, and which outcomes can arrive.\<close>

fun enabled :: "env \<Rightarrow> component \<Rightarrow> event \<Rightarrow> bool" where
  "enabled e s ClickDeposit = (currentState s = BalanceView \<and> isConnected s)"
| "enabled e s TriggerDeposit = True"
| "enabled e s ClickWithdrawNav = (currentState s = BalanceView \<and> hasDeposits s \<and> isConnected s)"
| "enabled e s (ChangeDepositAmount v) = (currentState s = DepositView \<and> depositStep s = DepositInput)"
| "enabled e s BlurDepositAmount = (currentState s = DepositView \<and> depositStep s = DepositInput)"
| "enabled e s ClickInitiateDeposit =
     (currentState s = DepositView \<and> depositStep s = DepositInput \<and>
      \<not> (depositAmount s = [] \<or> \<not> isConnected s \<or> \<not> isValidAmount e (depositAmount s)
         \<or> depositValidationError s \<noteq> []))"
| "enabled e s ClickConfirm =
     (currentState s = DepositView \<and> depositStep s = Approving \<and>
      \<not> (isPending (usdcTx s) \<or> isTxLoading (usdcTx s)))"
| "enabled e s ClickCancel =
     ((currentState s = DepositView \<and>
         ((depositStep s = DepositInput \<and> isConnected s) \<or> depositStep s = Approving
          \<or> depositStep s = DepositError))
      \<or> (currentState s = WithdrawView \<and>
            (withdrawStep s = WithdrawInput \<or> withdrawStep s = WithdrawError)))"
| "enabled e s ClickRetry = (currentState s = DepositView \<and> depositStep s = DepositError)"
| "enabled e s ClickDone = (currentState s = DepositView \<and> depositStep s = DepositConfirming)"
| "enabled e s (ChangeWithdrawAmount v) = (currentState s = WithdrawView \<and> withdrawStep s = WithdrawInput)"
| "enabled e s BlurWithdrawAmount = (currentState s = WithdrawView \<and> withdrawStep s = WithdrawInput)"
| "enabled e s ClickMax = (currentState s = WithdrawView \<and> withdrawStep s = WithdrawInput)"
| "enabled e s ClickWithdraw =
     (currentState s = WithdrawView \<and> withdrawStep s = WithdrawInput \<and> canWithdraw e s)"
| "enabled e s ClickWithdrawRetry = (currentState s = WithdrawView \<and> withdrawStep s = WithdrawError)"
| "enabled e s ClickWithdrawDone = (currentState s = WithdrawView \<and> withdrawStep s = WithdrawConfirming)"
| "enabled e s (UsdcWriteSubmitted h) = isPending (usdcTx s)"
| "enabled e s (UsdcWriteFailed m) = isPending (usdcTx s)"
| "enabled e s (UsdcReceipt ok) = isTxLoading (usdcTx s)"
| "enabled e s (VaultWriteSubmitted h) = isPending (vaultTx s)"
| "enabled e s (VaultWriteFailed m) = isPending (vaultTx s)"
| "enabled e s (VaultReceipt ok) = isTxLoading (vaultTx s)"
| "enabled e s (OracleReplied i reply) = (i < length (oracleRequests s))"
| "enabled e s (AllowanceReread i r) = (i < length (allowanceRereads s))"
| "enabled e s (ReadsRefreshed allowance tv deposits) = True"

definition settle :: "tx_state \<Rightarrow> bool \<Rightarrow> tx_state" where
  "settle t ok = (case t of Submitted h r \<Rightarrow> Submitted h (if ok then Succeeded else Reverted) | _ \<Rightarrow> t)"

definition removeAt :: "nat \<Rightarrow> 'a list \<Rightarrow> 'a list" where
  "removeAt i xs = take i xs @ drop (Suc i) xs"

text \<open>
  The continuation of the allowance re-read started after a wallet-simulation error: it
  calls the \<open>handleConfirmDeposit\<close> of the render that started the re-read.
\<close>

definition allowanceRereadDone :: "env \<Rightarrow> closure \<Rightarrow> int option \<Rightarrow> component \<Rightarrow> component" where
  "allowanceRereadDone e c newAllowance s =
     (case newAllowance of
        Some n \<Rightarrow>
          if n > 0 then handleConfirmDeposit e c s
          else s\<lparr>depositStep := DepositError, errorMessage := simulationErrorApproval\<rparr>
      | None \<Rightarrow> s\<lparr>depositStep := DepositError, errorMessage := simulationErrorApproval\<rparr>)"

text \<open>What the handler of an event does to the state.\<close>

fun handle :: "env \<Rightarrow> event \<Rightarrow> component \<Rightarrow> component" where
  "handle e ClickDeposit s = handleDeposit s"
| "handle e TriggerDeposit s = handleDeposit s"
| "handle e ClickWithdrawNav s = handleWithdrawClick s"
| "handle e (ChangeDepositAmount v) s =
     s\<lparr>depositAmount := sanitizeAmountInput v, depositValidationError := []\<rparr>"
| "handle e BlurDepositAmount s =
     (if depositAmount s \<noteq> [] \<and> \<not> isValidAmount e (depositAmount s)
      then s\<lparr>depositValidationError := ''Please enter a valid amount''\<rparr> else s)"
| "handle e ClickInitiateDeposit s = handleInitiateDeposit e s"
| "handle e ClickConfirm s = handleConfirmDeposit e (closureOf s) s"
| "handle e ClickCancel s = handleCancel s"
| "handle e ClickRetry s = handleRetry s"
| "handle e ClickDone s =
     s\<lparr>currentState := BalanceView, depositStep := DepositInput, depositAmount := []\<rparr>"
| "handle e (ChangeWithdrawAmount v) s =
     s\<lparr>withdrawAmount := sanitizeAmountInput v, withdrawValidationError := []\<rparr>"
| "handle e BlurWithdrawAmount s =
     (if withdrawAmount s \<noteq> [] \<and> \<not> isValidAmount e (withdrawAmount s)
      then s\<lparr>withdrawValidationError := ''Please enter a valid amount''\<rparr> else s)"
| "handle e ClickMax s =
     s\<lparr>withdrawAmount := toFixed e (userTotalValue s) 6, withdrawValidationError := []\<rparr>"
| "handle e ClickWithdraw s = handleWithdraw e s"
| "handle e ClickWithdrawRetry s = s\<lparr>withdrawStep := WithdrawInput\<rparr>"
| "handle e ClickWithdrawDone s =
     s\<lparr>currentState := BalanceView, withdrawStep := WithdrawInput, withdrawAmount := []\<rparr>"
| "handle e (UsdcWriteSubmitted h) s = s\<lparr>usdcTx := Submitted h Loading\<rparr>"
| "handle e (UsdcWriteFailed m) s = s\<lparr>usdcTx := WriteFailed m\<rparr>"
| "handle e (UsdcReceipt ok) s = s\<lparr>usdcTx := settle (usdcTx s) ok\<rparr>"
| "handle e (VaultWriteSubmitted h) s = s\<lparr>vaultTx := Submitted h Loading\<rparr>"
| "handle e (VaultWriteFailed m) s = s\<lparr>vaultTx := WriteFailed m\<rparr>"
| "handle e (VaultReceipt ok) s = s\<lparr>vaultTx := settle (vaultTx s) ok\<rparr>"
| "handle e (OracleReplied i reply) s =
     confirmDepositResume e (oracleRequests s ! i) reply
       (s\<lparr>oracleRequests := removeAt i (oracleRequests s)\<rparr>)"
| "handle e (AllowanceReread i r) s =
     allowanceRereadDone e (allowanceRereads s ! i) r
       (s\<lparr>allowanceRereads := removeAt i (allowanceRereads s), usdcAllowance := r\<rparr>)"
| "handle e (ReadsRefreshed allowance tv deposits) s =
     s\<lparr>usdcAllowance := allowance, userTotalValue := tv, hasDeposits := deposits\<rparr>"

text \<open>An event that is not enabled leaves the state as it is.\<close>

definition step :: "env \<Rightarrow> event \<Rightarrow> component \<Rightarrow> component" where
  "step e ev s = (if enabled e s ev then commit e (handle e ev s) else s)"

definition run :: "env \<Rightarrow> event list \<Rightarrow> component \<Rightarrow> component" where
  "run e evs s = foldl (\<lambda>s ev. step e ev s) s evs"

definition initial :: "string \<Rightarrow> int \<Rightarrow> int option \<Rightarrow> component" where
  "initial a cid allowance =
     \<lparr>address = Some a, accountChainId = Some cid, isConnected = True, hasDeposits = False,
      usdcAllowance = allowance, userTotalValue = 0, currentState = BalanceView,
      depositAmount = [], withdrawAmount = [], depositStep = DepositInput,
      withdrawStep = WithdrawInput, errorMessage = [], depositValidationError = [],
      withdrawValidationError = [], usdcTx = Idle, vaultTx = Idle, submitted = [],
      oracleRequests = [], allowanceRereads = []\<rparr>"


subsection \<open>A concrete instance of the parameters and concrete runs\<close>

text \<open>
  The instance reads plain strings of decimal digits, as the builtins do: \<open>parseFloat\<close> and
  \<open>parseUnits\<close> give the number and the number scaled by the power of ten, \<open>BigInt\<close> gives
  the integer and 0 for the empty string. Every other string is rejected; the runs below
  use no string on which this differs from the builtins (\<open>BigInt("1.5")\<close> throws, and the
  messages used need no trimming and hold no revert reason).
\<close>

fun decimalValue :: "nat \<Rightarrow> string \<Rightarrow> nat option" where
  "decimalValue acc [] = Some acc"
| "decimalValue acc (c # cs) =
     (case map_of (zip ''0123456789'' [0, 1, 2, 3, 4, 5, 6, 7, 8, 9]) c of
        None \<Rightarrow> None
      | Some d \<Rightarrow> decimalValue (10 * acc + d) cs)"

definition digitsEnv :: env where
  "digitsEnv =
     \<lparr>parseFloat = (\<lambda>v. if v = [] then NaN
                         else (case decimalValue 0 v of Some n \<Rightarrow> Finite (of_nat n) | None \<Rightarrow> NaN)),
      parseUnits = (\<lambda>v d. if v = [] then Inl (JsError ''InvalidDecimalNumberError'')
                           else (case decimalValue 0 v of
                                   Some n \<Rightarrow> Inr (int n * 10 ^ d)
                                 | None \<Rightarrow> Inl (JsError ''InvalidDecimalNumberError''))),
      BigInt = (\<lambda>v. case decimalValue 0 v of
                       Some n \<Rightarrow> Inr (int n)
                     | None \<Rightarrow> Inl (JsError ''Cannot convert to a BigInt'')),
      toFixed = (\<lambda>r d. []),
      trim = (\<lambda>s. s),
      matchRevertReason = (\<lambda>s. None)\<rparr>"

definition user :: string where
  "user = ''0x70997970C51812dc3A010C7d01b50e0d17dc79C8''"

definition plainSnapshot :: OracleSnapshot where
  "plainSnapshot = \<lparr>balance = ''0'', nonce = ''7'', deadline = ''1790000000'', assets = ''10000000'',
                    receiver = user, signature = ''0x1b''\<rparr>"

definition crossChainSnapshot :: OracleSnapshot where
  "crossChainSnapshot = plainSnapshot\<lparr>balance := ''5000000''\<rparr>"

definition malformedSnapshot :: OracleSnapshot where
  "malformedSnapshot = plainSnapshot\<lparr>balance := ''1.5''\<rparr>"

text \<open>
  A deposit of 10 USDC on Arbitrum Sepolia that needs an approval: the wallet reports a
  simulation error, the re-read of the allowance gives \<open>r\<close>, and the oracle answers.
\<close>

definition recoveryRun :: "int option \<Rightarrow> event list" where
  "recoveryRun r =
     [ClickDeposit, ChangeDepositAmount ''10'', ClickInitiateDeposit,
      UsdcWriteFailed ''Internal JSON-RPC error'', AllowanceReread 0 r,
      OracleReplied 0 (Inr plainSnapshot)]"

text \<open>
  A deposit with a sufficient allowance whose write waits in the wallet while the flow is
  started again through the deposit trigger.
\<close>

definition restartedRun :: "event list" where
  "restartedRun =
     [ClickDeposit, ChangeDepositAmount ''10'', ClickInitiateDeposit,
      OracleReplied 0 (Inr plainSnapshot), TriggerDeposit, ChangeDepositAmount ''10'',
      ClickInitiateDeposit, OracleReplied 0 (Inr plainSnapshot)]"

text \<open>A wallet failure whose message holds both the rejection and the simulation wording.\<close>

definition deniedRun :: "event list" where
  "deniedRun =
     [ClickDeposit, ChangeDepositAmount ''10'', ClickInitiateDeposit,
      UsdcWriteFailed ''Request denied: Internal JSON-RPC error'']"

text \<open>A first deposit: the approval confirms on-chain, then the oracle cannot be reached.\<close>

definition oracleDownRun :: "event list" where
  "oracleDownRun =
     [ClickDeposit, ChangeDepositAmount ''10'', ClickInitiateDeposit,
      UsdcWriteSubmitted ''0xa1'', UsdcReceipt True,
      OracleReplied 0 (Inl (JsError ''Oracle request failed''))]"

text \<open>A deposit with a sufficient allowance answered by the oracle.\<close>

definition answeredRun :: "OracleSnapshot \<Rightarrow> event list" where
  "answeredRun snapshot =
     [ClickDeposit, ChangeDepositAmount ''10'', ClickInitiateDeposit,
      OracleReplied 0 (Inr snapshot)]"


subsection \<open>Components bound to one chain\<close>

text \<open>
  The component and every continuation it has suspended hold the same chain id. The chain
  id of the account does not change during a run.
\<close>

definition onChain :: "int \<Rightarrow> component \<Rightarrow> bool" where
  "onChain cid s =
     (accountChainId s = Some cid \<and> list_all (\<lambda>r. snd (snd r) = cid) (oracleRequests s)
      \<and> list_all (\<lambda>c. c_chainId c = Some cid) (allowanceRereads s))"

text \<open>The events that are actions of the user on a rendered control.\<close>

fun isUserAction :: "event \<Rightarrow> bool" where
  "isUserAction TriggerDeposit = False"
| "isUserAction (UsdcWriteSubmitted h) = False"
| "isUserAction (UsdcWriteFailed m) = False"
| "isUserAction (UsdcReceipt ok) = False"
| "isUserAction (VaultWriteSubmitted h) = False"
| "isUserAction (VaultWriteFailed m) = False"
| "isUserAction (VaultReceipt ok) = False"
| "isUserAction (OracleReplied i reply) = False"
| "isUserAction (AllowanceReread i r) = False"
| "isUserAction (ReadsRefreshed allowance tv deposits) = False"
| "isUserAction ev = True"

text \<open>A state in which no block of the two effects has anything to do.\<close>

definition quiescent :: "env \<Rightarrow> component \<Rightarrow> bool" where
  "quiescent e t =
     ((isTxSuccess (vaultTx t) \<longrightarrow> depositStep t \<noteq> Depositing \<and> depositStep t \<noteq> DepositError
          \<and> withdrawStep t \<noteq> Withdrawing \<and> withdrawStep t \<noteq> WithdrawError)
      \<and> (isTxError (usdcTx t) \<or> writeError (usdcTx t) \<noteq> None \<longrightarrow> depositStep t \<noteq> Approving)
      \<and> (isTxError (vaultTx t) \<or> writeError (vaultTx t) \<noteq> None \<longrightarrow>
            depositStep t \<noteq> Depositing \<and> withdrawStep t \<noteq> Withdrawing)
      \<and> (isTxSuccess (usdcTx t) \<and> depositStep t = Approving \<longrightarrow>
            handleConfirmDeposit e (closureOf t) t = t))"


text \<open>The two writes that deposit into the vault.\<close>

definition isDepositWrite :: "write_request \<Rightarrow> bool" where
  "isDepositWrite w =
     (case call w of
        deposit amount rcv \<Rightarrow> True
      | depositWithExtraInfoViaSignature amount rcv snapshot sig \<Rightarrow> True
      | _ \<Rightarrow> False)"

section \<open>Properties of the rounding\<close>

lemma bitLength_bounds:
  "0 < n \<Longrightarrow> 0 < bitLength n \<and> 2 ^ nat (bitLength n) \<le> 2 * n \<and> n < 2 ^ nat (bitLength n)"
proof (induction n rule: bitLength.induct)
  case (1 n)
  show ?case
  proof (cases "n = 1")
    case True
    have "bitLength 1 = 1 + bitLength 0" by (subst bitLength.simps) simp
    also have "bitLength 0 = 0" by (subst bitLength.simps) simp
    finally show ?thesis using True by simp
  next
    case False
    with 1 have m: "0 < n div 2" by simp
    then have ih: "0 < bitLength (n div 2)" "2 ^ nat (bitLength (n div 2)) \<le> 2 * (n div 2)"
      "n div 2 < 2 ^ nat (bitLength (n div 2))"
      using 1 by simp_all
    have b: "bitLength n = 1 + bitLength (n div 2)"
      using 1(2) by (subst bitLength.simps) simp
    then have p: "(2::int) ^ nat (bitLength n) = 2 * 2 ^ nat (bitLength (n div 2))"
      using ih(1) by (simp add: nat_add_distrib)
    have "2 * (n div 2) \<le> n" "n < 2 * (n div 2 + 1)" by simp_all
    with ih b p show ?thesis by simp
  qed
qed

lemma ratio_bounds:
  fixes p d :: int
  assumes "0 < p" "0 < d"
  shows "2 powi (bitLength p - bitLength d - 1) < (of_int p / of_int d :: rat)"
    and "(of_int p / of_int d :: rat) < 2 powi (bitLength p - bitLength d + 1)"
proof -
  define a where "a = nat (bitLength p)"
  define b where "b = nat (bitLength d)"
  have ab: "bitLength p = int a" "bitLength d = int b"
    using bitLength_bounds [OF assms(1)] bitLength_bounds [OF assms(2)] by (simp_all add: a_def b_def)
  have P: "(2::int) ^ a \<le> 2 * p" "p < 2 ^ a" and D: "(2::int) ^ b \<le> 2 * d" "d < 2 ^ b"
    using bitLength_bounds [OF assms(1)] bitLength_bounds [OF assms(2)] by (simp_all add: a_def b_def)
  have Pr: "(2::rat) ^ a \<le> 2 * of_int p" "(of_int p :: rat) < 2 ^ a"
    using P by (metis of_int_le_iff of_int_mult of_int_numeral of_int_power, metis of_int_less_iff of_int_numeral of_int_power)
  have Dr: "(2::rat) ^ b \<le> 2 * of_int d" "(of_int d :: rat) < 2 ^ b"
    using D by (metis of_int_le_iff of_int_mult of_int_numeral of_int_power, metis of_int_less_iff of_int_numeral of_int_power)
  have dp: "(0::rat) < of_int d" "(0::rat) < of_int p" using assms by simp_all
  have e1: "(2::rat) powi (int a - int b - 1) = 2 ^ a / (2 * 2 ^ b)"
    by (simp add: power_int_diff)
  have e2: "(2::rat) powi (int a - int b + 1) = 2 * 2 ^ a / 2 ^ b"
    by (simp add: power_int_diff power_int_add)
  have "(2::rat) ^ a * of_int d < 2 * of_int p * 2 ^ b"
  proof -
    have "(2::rat) ^ a * of_int d \<le> 2 * of_int p * of_int d" using Pr(1) dp by simp
    also have "\<dots> < 2 * of_int p * 2 ^ b" using Dr(2) dp by simp
    finally show ?thesis .
  qed
  then have "(2::rat) ^ a / (2 * 2 ^ b) < of_int p / of_int d"
    using dp by (simp add: field_simps)
  then show "2 powi (bitLength p - bitLength d - 1) < (of_int p / of_int d :: rat)"
    by (simp only: ab e1)
  have "of_int p * (2::rat) ^ b < 2 * 2 ^ a * of_int d"
  proof -
    have "of_int p * (2::rat) ^ b \<le> of_int p * (2 * of_int d)" using Dr(1) dp by simp
    also have "\<dots> < 2 ^ a * (2 * of_int d)" using Pr(2) dp by simp
    finally show ?thesis by (simp add: mult_ac)
  qed
  then have "of_int p / of_int d < 2 * (2::rat) ^ a / 2 ^ b"
    using dp by (simp add: field_simps)
  then show "(of_int p / of_int d :: rat) < 2 powi (bitLength p - bitLength d + 1)"
    by (simp only: ab e2)
qed

lemma floorLog2_bounds:
  assumes "0 < q"
  shows "2 powi (floorLog2 q) \<le> q" and "q < 2 powi (floorLog2 q + 1)"
proof -
  obtain p d where pd: "quotient_of q = (p, d)" by (cases "quotient_of q")
  then have d: "0 < d" and q: "q = of_int p / of_int d"
    by (rule quotient_of_denom_pos, rule quotient_of_div)
  with assms have p: "0 < p" by (simp add: zero_less_divide_iff)
  let ?k = "bitLength p - bitLength d"
  have f: "floorLog2 q = (if 2 powi ?k \<le> q then ?k else ?k - 1)"
    by (simp add: floorLog2_def pd Let_def)
  have lo: "2 powi (?k - 1) < q" and hi: "q < 2 powi (?k + 1)"
    using ratio_bounds [OF p d] by (simp_all add: q)
  show "2 powi (floorLog2 q) \<le> q" using f lo by auto
  show "q < 2 powi (floorLog2 q + 1)" using f hi by auto
qed

lemma power_int_2_less:
  assumes "(2::rat) powi m < 2 powi n"
  shows "m < n"
proof (rule ccontr)
  assume "\<not> m < n"
  then have "n \<le> m" by simp
  then have "(2::rat) powi n \<le> 2 powi m" by (rule power_int_increasing) simp
  with assms show False by simp
qed

lemma floorLog2_unique:
  assumes "2 powi k \<le> q" "q < 2 powi (k + 1)"
  shows "floorLog2 q = k"
proof -
  have "(0::rat) < 2 powi k" by simp
  then have q: "0 < q" using assms(1) by (rule less_le_trans)
  have "(2::rat) powi k < 2 powi (floorLog2 q + 1)"
    using assms(1) floorLog2_bounds(2) [OF q] by (rule le_less_trans)
  then have 1: "k < floorLog2 q + 1" by (rule power_int_2_less)
  have "(2::rat) powi (floorLog2 q) < 2 powi (k + 1)"
    using floorLog2_bounds(1) [OF q] assms(2) by (rule le_less_trans)
  then have "floorLog2 q < k + 1" by (rule power_int_2_less)
  with 1 show ?thesis by simp
qed

lemma floor_rat_numeral: "\<lfloor>(numeral a :: rat) / numeral b\<rfloor> = numeral a div numeral b"
  by (metis floor_divide_of_int_eq of_int_numeral)

lemma roundHalfEven_ge: "1 \<le> q \<Longrightarrow> 1 \<le> roundHalfEven q"
proof -
  assume "1 \<le> q"
  then have "1 \<le> \<lfloor>q\<rfloor>" by simp
  then show ?thesis by (simp add: roundHalfEven_def Let_def)
qed

lemma roundToDouble_positive:
  assumes "1 / 1000000 \<le> q"
  shows "jsPositive (roundToDouble q)"
proof -
  have q: "0 < q" using assms by simp
  let ?e = "max (floorLog2 q) (- 1022)"
  let ?ulp = "(2::rat) powi (?e - 52)"
  have u: "0 < ?ulp" by simp
  have "1 \<le> q / ?ulp"
  proof (cases "- 1022 \<le> floorLog2 q")
    case True
    then have e: "?e = floorLog2 q" by simp
    have "?ulp \<le> 2 powi (floorLog2 q)" by (simp add: e power_int_increasing)
    also have "\<dots> \<le> q" by (rule floorLog2_bounds(1) [OF q])
    finally show ?thesis using u by (simp only: le_divide_eq_1_pos)
  next
    case False
    then have e: "?e = - 1022" by simp
    have "?ulp \<le> 1 / 1000000" by (simp add: e)
    with assms have "?ulp \<le> q" by simp
    then show ?thesis using u by (simp only: le_divide_eq_1_pos)
  qed
  then have "1 \<le> roundHalfEven (q / ?ulp)" by (rule roundHalfEven_ge)
  then have "(0::rat) < of_int (roundHalfEven (q / ?ulp)) * ?ulp" using u by simp
  then show ?thesis using q by (simp add: roundToDouble_def Let_def jsPositive_def)
qed

lemma numberOfUnits_positive: "0 < x \<Longrightarrow> jsPositive (numberOfUnits x)"
proof -
  assume "0 < x"
  then have "(1::rat) \<le> of_int x" by simp
  then have "1 / 1000000 \<le> (of_int x :: rat) / 1000000" by simp
  then show ?thesis unfolding numberOfUnits_def by (rule roundToDouble_positive)
qed

lemma roundToDouble_eval:
  assumes "2 powi k \<le> q" "q < 2 powi (k + 1)"
  shows "roundToDouble q =
         (let v = of_int (roundHalfEven (q / 2 powi (max k (- 1022) - 52))) * 2 powi (max k (- 1022) - 52)
          in if 2 powi 1024 \<le> v then PosInfinity else Finite v)"
proof -
  have "(0::rat) < 2 powi k" by simp
  then have q: "0 < q" using assms(1) by (rule less_le_trans)
  have "floorLog2 q = k" using assms by (rule floorLog2_unique)
  then show ?thesis using q by (simp add: roundToDouble_def Let_def)
qed

text \<open>The decimals 0.7 and 0.1 as numbers, their product, and the quotient of that product by 0.1.\<close>

lemma double_7_10: "roundToDouble (7 / 10) = Finite (3152519739159347 / 4503599627370496)"
  by (simp add: roundToDouble_eval [where k = "- 1"] roundHalfEven_def Let_def floor_rat_numeral)

lemma double_1_10: "roundToDouble (1 / 10) = Finite (3602879701896397 / 36028797018963968)"
  by (simp add: roundToDouble_eval [where k = "- 4"] roundHalfEven_def Let_def floor_rat_numeral)

lemma double_product:
  "jsTimes (Finite (3152519739159347 / 4503599627370496)) (Finite (3602879701896397 / 36028797018963968))
   = Finite (5044031582654955 / 72057594037927936)"
  by (simp add: jsTimes_def roundToDouble_eval [where k = "- 4"] roundHalfEven_def Let_def
      floor_rat_numeral)

lemma double_quotient:
  "jsDivide (Finite (5044031582654955 / 72057594037927936)) (Finite (3602879701896397 / 36028797018963968))
   = Finite (6305039478318693 / 9007199254740992)"
  by (simp add: jsDivide_def roundToDouble_eval [where k = "- 1"] roundHalfEven_def Let_def
      floor_rat_numeral)

lemma double_one:
  "jsDivide (Finite (3602879701896397 / 36028797018963968)) (Finite (3602879701896397 / 36028797018963968))
   = Finite 1"
  by (simp add: jsDivide_def roundToDouble_eval [where k = 0] roundHalfEven_def Let_def)

lemma double_100: "roundToDouble 100 = Finite 100"
  by (simp add: roundToDouble_eval [where k = 6] roundHalfEven_def Let_def)

lemma double_200: "roundToDouble 200 = Finite 200"
  by (simp add: roundToDouble_eval [where k = 7] roundHalfEven_def Let_def)

lemma double_two: "jsDivide (Finite 200) (Finite 100) = Finite 2"
  by (simp add: jsDivide_def roundToDouble_eval [where k = 1] roundHalfEven_def Let_def)


section \<open>Properties of the allocation aggregation\<close>

lemma totalRaw_sum: "totalRaw rs = sum_list (map snd rs)"
proof -
  have "foldl (\<lambda>sum result. sum + snd result) a rs = a + sum_list (map snd rs)" for a
    by (induction rs arbitrary: a) auto
  then show ?thesis by (simp add: totalRaw_def)
qed

lemma getVaultBalance_fst: "fst (getVaultBalance read c) = chainId c"
  by (simp add: getVaultBalance_def split: option.splits)

lemma getVaultBalance_nonneg: "0 \<le> snd (getVaultBalance read c)"
  by (simp add: getVaultBalance_def split: option.splits)

lemma find_balance:
  "distinct (map chainId configs) \<Longrightarrow> c \<in> set configs \<Longrightarrow>
   find (\<lambda>r. fst r = chainId c) (map (getVaultBalance read) configs) = Some (getVaultBalance read c)"
proof (induction configs)
  case Nil then show ?case by simp
next
  case (Cons a configs)
  show ?case
  proof (cases "c = a")
    case True then show ?thesis by (simp add: getVaultBalance_fst)
  next
    case False
    with Cons.prems have "c \<in> set configs" "chainId a \<noteq> chainId c" by auto
    with Cons show ?thesis by (simp add: getVaultBalance_fst)
  qed
qed

lemma configBalance_distinct:
  "distinct (map chainId configs) \<Longrightarrow> c \<in> set configs \<Longrightarrow>
   configBalance (balanceResults read configs) c = snd (getVaultBalance read c)"
  by (simp add: configBalance_def balanceResults_def find_balance)

lemma sdiv_nonneg: "0 \<le> a \<Longrightarrow> 0 < b \<Longrightarrow> a sdiv b = a div (b::int)"
  by (simp add: signed_divide_int_def sgn_if)

lemma allocationPercent_floor:
  "0 \<le> b \<Longrightarrow> 0 < t \<Longrightarrow> allocationPercent t b = (100 * b) div t"
  by (simp add: allocationPercent_def sdiv_nonneg mult.commute)

lemma getVaultBalance_raw: "getVaultBalance read c = (chainId c, rawBalance read c)"
  by (simp add: getVaultBalance_def rawBalance_def split: option.splits)

lemma rawBalance_nonneg: "0 \<le> rawBalance read c"
  by (simp add: rawBalance_def split: option.splits)

lemma balanceResults_raw:
  "balanceResults read configs = map (\<lambda>c. (chainId c, rawBalance read c)) configs"
  by (simp add: balanceResults_def getVaultBalance_raw)

lemma totalRaw_total: "totalRaw (balanceResults read configs) = totalBalance read configs"
  by (simp add: totalRaw_sum balanceResults_raw totalBalance_def comp_def)

lemma floorPercent_div: "floorPercent T b = (100 * b) div T"
proof -
  have "(100 * of_int b :: rat) = of_int (100 * b)" by simp
  then show ?thesis by (simp only: floorPercent_def floor_divide_of_int_eq)
qed

lemma allocation_items_expected:
  assumes "distinct (map chainId configs)" and "0 < totalBalance read configs"
  shows "allocationItems configs (balanceResults read configs) = expectedItems read configs"
  using assms
  by (simp add: allocationItems_def expectedItems_def configBalance_distinct allocationPercent_floor
      getVaultBalance_raw rawBalance_nonneg totalRaw_total floorPercent_div)

lemma floor_sum_upper:
  fixes t :: int
  assumes "0 < t" 
  shows "t * sum_list (map (\<lambda>b. (100 * b) div t) bs) \<le> 100 * sum_list bs"
proof (induction bs)
  case Nil then show ?case by simp
next
  case (Cons b bs)
  have "t * ((100 * b) div t) \<le> 100 * b"
  proof -
    have "t * ((100 * b) div t) = 100 * b - (100 * b) mod t"
      by (simp add: minus_mod_eq_mult_div)
    moreover have "0 \<le> (100 * b) mod t" using assms by simp
    ultimately show ?thesis by simp
  qed
  with Cons show ?case by (simp add: distrib_left)
qed

lemma floor_sum_lower:
  fixes t :: int
  assumes "0 < t" 
  shows "bs \<noteq> [] \<Longrightarrow> 100 * sum_list bs < t * (sum_list (map (\<lambda>b. (100 * b) div t) bs) + int (length bs))"
proof (induction bs)
  case Nil then show ?case by simp
next
  case (Cons b bs)
  have step: "100 * b < t * ((100 * b) div t + 1)"
  proof -
    have "t * ((100 * b) div t) = 100 * b - (100 * b) mod t"
      by (simp add: minus_mod_eq_mult_div)
    moreover have "(100 * b) mod t < t" using assms by simp
    ultimately show ?thesis by (simp add: distrib_left)
  qed
  show ?case
  proof (cases "bs = []")
    case True
    with step show ?thesis by (simp add: distrib_left)
  next
    case False
    with Cons have "100 * sum_list bs < t * (sum_list (map (\<lambda>b. (100 * b) div t) bs) + int (length bs))"
      by simp
    with step show ?thesis by (simp add: distrib_left)
  qed
qed

lemma sum_sorted: "sum_list (map allocation (sortedAllocations items)) = sum_list (map allocation items)"
proof -
  have "mset (map allocation (sortedAllocations items)) = mset (map allocation items)"
    by (simp add: sortedAllocations_def)
  then show ?thesis by (metis sum_mset_sum_list)
qed

lemma fetch_allocations:
  "allocations (fetchAllocationData False configs read) =
   sortedAllocations (allocationItems configs (balanceResults read configs))"
  by (simp add: fetchAllocationData_def Let_def)

lemma configs_distinct: "distinct (map chainId CHAIN_CONFIGS)"
  by (simp add: CHAIN_CONFIGS_def)

lemma deployed_distinct: "distinct (map chainId deployedConfigs)"
  by (simp add: deployedConfigs_def CHAIN_CONFIGS_def)

lemma ex1: "map allocation (allocations (fetchAllocationData False deployedConfigs dominatedRead)) = [99, 0, 0, 0]"
  by (simp add: fetchAllocationData_def deployedConfigs_def CHAIN_CONFIGS_def dominatedRead_def
      balanceResults_def getVaultBalance_def allocationItems_def totalRaw_def configBalance_def
      allocationPercent_def sortedAllocations_def signed_divide_int_def)

lemma ex1_bal: "map (rawBalance dominatedRead) deployedConfigs = [999, 1, 0, 0]"
  by (simp add: deployedConfigs_def CHAIN_CONFIGS_def dominatedRead_def rawBalance_def)

lemma ex1_total: "totalBalance dominatedRead deployedConfigs = 1000"
  by (simp add: totalBalance_def ex1_bal)

text \<open>
  Claim C5. Let \<open>b\<close> be the raw balance of a network and \<open>T\<close>, positive, the sum of the raw
  balances of all configured networks. The entry of every network of \<open>CHAIN_CONFIGS\<close>, and
  of every list of networks with pairwise distinct chain ids, carries the percentage
  \<open>floor (100 * b / T)\<close> of that network; the pass computes it in integer arithmetic, and
  publishes the entries in the stable descending order of their percentages. Raw balances
  \<open>[999, 1, 0, 0]\<close> (total 1000) give \<open>[99, 0, 0, 0]\<close>.
\<close>

theorem percentage_is_floor:
  "(0 < totalBalance read CHAIN_CONFIGS \<longrightarrow>
      allocationItems CHAIN_CONFIGS (balanceResults read CHAIN_CONFIGS) = expectedItems read CHAIN_CONFIGS)
   \<and> (distinct (map chainId configs) \<and> 0 < totalBalance read' configs \<longrightarrow>
        allocationItems configs (balanceResults read' configs) = expectedItems read' configs)
   \<and> allocations (fetchAllocationData False configs read') =
       sortedAllocations (allocationItems configs (balanceResults read' configs))
   \<and> map (rawBalance dominatedRead) deployedConfigs = [999, 1, 0, 0]
   \<and> totalBalance dominatedRead deployedConfigs = 1000
   \<and> map allocation (allocations (fetchAllocationData False deployedConfigs dominatedRead)) = [99, 0, 0, 0]"
  using allocation_items_expected [OF configs_distinct, of read]
    allocation_items_expected [of configs read'] ex1 ex1_total ex1_bal
    fetch_allocations [of configs read']
  by simp

text \<open>The statement of C5 used at the run with one dominating balance and at the configured chains.\<close>

theorem percentage_is_floor_witness:
  "distinct (map chainId deployedConfigs) \<and> 0 < totalBalance dominatedRead deployedConfigs
   \<and> map allocation (allocationItems deployedConfigs (balanceResults dominatedRead deployedConfigs)) =
       [99, 0, 0, 0]
   \<and> 0 < totalBalance (\<lambda>c. Some 7) CHAIN_CONFIGS
   \<and> map allocation (allocationItems CHAIN_CONFIGS (balanceResults (\<lambda>c. Some 7) CHAIN_CONFIGS)) =
       [100, 0, 0, 0]"
proof -
  have d: "distinct (map chainId deployedConfigs)" by (rule deployed_distinct)
  have t: "totalBalance dominatedRead deployedConfigs = 1000" by (rule ex1_total)
  have "allocationItems deployedConfigs (balanceResults dominatedRead deployedConfigs) =
      expectedItems dominatedRead deployedConfigs"
    using percentage_is_floor [of _ deployedConfigs dominatedRead] d t by simp
  then have "map allocation (allocationItems deployedConfigs (balanceResults dominatedRead deployedConfigs)) =
      map (floorPercent 1000) (map (rawBalance dominatedRead) deployedConfigs)"
    by (simp add: expectedItems_def t comp_def)
  then have 1: "map allocation (allocationItems deployedConfigs (balanceResults dominatedRead deployedConfigs)) =
      [99, 0, 0, 0]"
    by (simp add: ex1_bal floorPercent_div)
  have b: "map (rawBalance (\<lambda>c. Some 7)) CHAIN_CONFIGS = [7, 0, 0, 0]"
    by (simp add: CHAIN_CONFIGS_def rawBalance_def)
  then have s: "totalBalance (\<lambda>c. Some 7) CHAIN_CONFIGS = 7" by (simp add: totalBalance_def)
  then have "allocationItems CHAIN_CONFIGS (balanceResults (\<lambda>c. Some 7) CHAIN_CONFIGS) =
      expectedItems (\<lambda>c. Some 7) CHAIN_CONFIGS"
    using percentage_is_floor [of "\<lambda>c. Some 7"] by simp
  then have "map allocation (allocationItems CHAIN_CONFIGS (balanceResults (\<lambda>c. Some 7) CHAIN_CONFIGS)) =
      map (floorPercent 7) (map (rawBalance (\<lambda>c. Some 7)) CHAIN_CONFIGS)"
    by (simp add: expectedItems_def s comp_def)
  then have 2: "map allocation (allocationItems CHAIN_CONFIGS (balanceResults (\<lambda>c. Some 7) CHAIN_CONFIGS)) =
      [100, 0, 0, 0]"
    by (simp add: b floorPercent_div)
  from 1 2 d t s show ?thesis by simp
qed

lemma names_kept:
  "mset (map item_name (allocations (fetchAllocationData False configs read))) = mset (map name configs)"
proof -
  have "mset (sortedAllocations items) = mset items" for items
    by (simp add: sortedAllocations_def)
  then have "mset (map item_name (sortedAllocations items)) = mset (map item_name items)" for items
    by (metis mset_map)
  moreover have "map item_name (allocationItems configs results) = map name configs" for results
    by (simp add: allocationItems_def comp_def)
  ultimately show ?thesis
    by (simp only: fetch_allocations)
qed

lemma length_kept:
  "length (allocations (fetchAllocationData False configs read)) = length configs"
  by (simp add: fetch_allocations allocationItems_def sortedAllocations_def)

lemma failed_read_zero:
  "vaultAddress c = None \<or> vaultAddress c = Some [] \<or> read c = None \<Longrightarrow>
   getVaultBalance read c = (chainId c, 0) \<and> rawBalance read c = 0"
  by (auto simp: getVaultBalance_def rawBalance_def split: option.splits)

lemma zero_total:
  assumes "totalBalance read configs = 0"
  shows "\<forall>a \<in> set (allocations (fetchAllocationData False configs read)). allocation a = 0"
  using assms
  by (auto simp: fetch_allocations sortedAllocations_def allocationItems_def allocationPercent_def
      totalRaw_total)

lemma entries_expected:
  assumes "distinct (map chainId configs)" and "0 < totalBalance read configs"
  shows "mset (allocations (fetchAllocationData False configs read)) = mset (expectedItems read configs)"
  using assms
  by (simp add: fetch_allocations sortedAllocations_def allocation_items_expected)

lemma sum_bounds:
  assumes d: "distinct (map chainId configs)" and t: "0 < totalBalance read configs"
  shows "sum_list (map allocation (allocations (fetchAllocationData False configs read))) \<le> 100"
    and "100 - int (length configs) < sum_list (map allocation (allocations (fetchAllocationData False configs read)))"
proof -
  let ?T = "totalBalance read configs"
  let ?bs = "map (rawBalance read) configs"
  let ?S = "sum_list (map allocation (allocations (fetchAllocationData False configs read)))"
  have T: "?T = sum_list ?bs" by (simp add: totalBalance_def)
  have "?S = sum_list (map allocation (allocationItems configs (balanceResults read configs)))"
    by (simp add: fetch_allocations sum_sorted)
  also have "\<dots> = sum_list (map (\<lambda>b. (100 * b) div ?T) ?bs)"
    by (simp add: allocation_items_expected [OF d t] expectedItems_def floorPercent_div comp_def)
  finally have S: "?S = sum_list (map (\<lambda>b. (100 * b) div ?T) ?bs)" .
  have "?T * ?S \<le> 100 * ?T"
    using floor_sum_upper [OF t, of ?bs] by (simp only: S T [symmetric])
  then have "?T * ?S \<le> ?T * 100" by (simp add: mult.commute)
  with t show "?S \<le> 100" by (simp only: mult_le_cancel_left_pos)
  have ne: "?bs \<noteq> []" using t T by auto
  have "100 * ?T < ?T * (?S + int (length ?bs))"
    using floor_sum_lower [OF t ne] by (simp only: S T [symmetric])
  then have "?T * 100 < ?T * (?S + int (length configs))" by (simp add: mult.commute)
  with t have "100 < ?S + int (length configs)" by (simp only: mult_less_cancel_left_pos)
  then show "100 - int (length configs) < ?S" by simp
qed

text \<open>
  Claim C1, as amended. The aggregation pass yields exactly one entry per configured
  network (the names of the entries are the names of the networks, each once); a network
  without a deployed vault or with a failing read contributes the raw balance 0 and the
  pass still completes, the total being the sum of the contributions. When the total raw
  balance \<open>T\<close> is positive and the chain ids are pairwise distinct, the entries are those
  of the networks, each with the percentage \<open>floor (100 * b / T)\<close> of its own raw balance
  \<open>b\<close>, and the percentages sum to at most 100 and to more than \<open>100 - n\<close> for \<open>n\<close>
  networks; when the total is zero every percentage is 0.
\<close>

theorem aggregate_one_entry_per_network:
  "mset (map item_name (allocations (fetchAllocationData False configs read))) = mset (map name configs)
   \<and> length (allocations (fetchAllocationData False configs read)) = length configs
   \<and> (\<forall>c. vaultAddress c = None \<or> vaultAddress c = Some [] \<or> read c = None \<longrightarrow>
          getVaultBalance read c = (chainId c, 0) \<and> rawBalance read c = 0)
   \<and> balanceResults read configs = map (\<lambda>c. (chainId c, rawBalance read c)) configs
   \<and> totalRaw (balanceResults read configs) = totalBalance read configs
   \<and> (distinct (map chainId configs) \<and> 0 < totalBalance read configs \<longrightarrow>
        mset (allocations (fetchAllocationData False configs read)) = mset (expectedItems read configs)
        \<and> sum_list (map allocation (allocations (fetchAllocationData False configs read))) \<le> 100
        \<and> 100 - int (length configs) <
            sum_list (map allocation (allocations (fetchAllocationData False configs read))))
   \<and> (totalBalance read configs = 0 \<longrightarrow>
        (\<forall>a \<in> set (allocations (fetchAllocationData False configs read)). allocation a = 0))"
  using names_kept [of configs read] length_kept [of configs read] failed_read_zero [of _ read]
    sum_bounds [of configs read] zero_total [of read configs] entries_expected [of configs read]
    balanceResults_raw [of read configs] totalRaw_total [of read configs]
  by blast

lemma ex2: "allocations (fetchAllocationData False deployedConfigs thirdsRead) =
    [\<lparr>item_name = ''Arbitrum Sepolia'', allocation = 33\<rparr>,
     \<lparr>item_name = ''Base Sepolia'', allocation = 33\<rparr>,
     \<lparr>item_name = ''Optimism Sepolia'', allocation = 33\<rparr>,
     \<lparr>item_name = ''Ethereum Sepolia'', allocation = 0\<rparr>]"
  by (simp add: fetchAllocationData_def deployedConfigs_def CHAIN_CONFIGS_def thirdsRead_def
      balanceResults_def getVaultBalance_def allocationItems_def totalRaw_def configBalance_def
      allocationPercent_def sortedAllocations_def signed_divide_int_def)

lemma ex2_bal: "map (rawBalance thirdsRead) deployedConfigs = [1, 1, 1, 0]"
  by (simp add: deployedConfigs_def CHAIN_CONFIGS_def thirdsRead_def rawBalance_def)

lemma ex2_total: "totalBalance thirdsRead deployedConfigs = 3"
  by (simp add: totalBalance_def ex2_bal)

text \<open>
  The percentages need not sum to 100: three balances of 1 and one failing read give
  \<open>33 + 33 + 33 + 0 = 99\<close> although the total is positive.
\<close>

theorem percentages_sum_counterexample:
  "0 < totalBalance thirdsRead deployedConfigs
   \<and> totalRaw (balanceResults thirdsRead deployedConfigs) = 3
   \<and> sum_list (map allocation (allocations (fetchAllocationData False deployedConfigs thirdsRead))) = 99
   \<and> sum_list (map allocation (allocations (fetchAllocationData False deployedConfigs thirdsRead))) \<noteq> 100"
  by (simp add: ex2 ex2_total totalRaw_total)

text \<open>The amended statement of C1 used at two concrete runs.\<close>

theorem aggregate_one_entry_per_network_witness:
  "distinct (map chainId deployedConfigs) \<and> 0 < totalBalance thirdsRead deployedConfigs
   \<and> length (allocations (fetchAllocationData False deployedConfigs thirdsRead)) = 4
   \<and> mset (allocations (fetchAllocationData False deployedConfigs thirdsRead)) =
       mset [\<lparr>item_name = ''Arbitrum Sepolia'', allocation = 33\<rparr>,
             \<lparr>item_name = ''Base Sepolia'', allocation = 33\<rparr>,
             \<lparr>item_name = ''Optimism Sepolia'', allocation = 33\<rparr>,
             \<lparr>item_name = ''Ethereum Sepolia'', allocation = 0\<rparr>]
   \<and> sum_list (map allocation (allocations (fetchAllocationData False deployedConfigs thirdsRead))) \<le> 100
   \<and> 96 < sum_list (map allocation (allocations (fetchAllocationData False deployedConfigs thirdsRead)))
   \<and> vaultAddress (CHAIN_CONFIGS ! 1) = None
   \<and> getVaultBalance thirdsRead (CHAIN_CONFIGS ! 1) = (84532, 0)
   \<and> totalBalance thirdsRead CHAIN_CONFIGS = 1
   \<and> totalBalance (\<lambda>c. None) CHAIN_CONFIGS = 0
   \<and> map allocation (allocations (fetchAllocationData False CHAIN_CONFIGS (\<lambda>c. None))) = [0, 0, 0, 0]"
proof -
  have d: "distinct (map chainId deployedConfigs)" by (rule deployed_distinct)
  have t: "0 < totalBalance thirdsRead deployedConfigs" by (simp add: ex2_total)
  have l: "length deployedConfigs = 4" by (simp add: deployedConfigs_def CHAIN_CONFIGS_def)
  have v: "vaultAddress (CHAIN_CONFIGS ! 1) = None" "chainId (CHAIN_CONFIGS ! 1) = 84532"
    by (simp_all add: CHAIN_CONFIGS_def)
  have z: "totalBalance (\<lambda>c. None) CHAIN_CONFIGS = 0"
    by (simp add: CHAIN_CONFIGS_def totalBalance_def rawBalance_def)
  have o: "totalBalance thirdsRead CHAIN_CONFIGS = 1"
    by (simp add: CHAIN_CONFIGS_def totalBalance_def rawBalance_def thirdsRead_def)
  have x: "expectedItems thirdsRead deployedConfigs =
      [\<lparr>item_name = ''Arbitrum Sepolia'', allocation = 33\<rparr>,
       \<lparr>item_name = ''Base Sepolia'', allocation = 33\<rparr>,
       \<lparr>item_name = ''Optimism Sepolia'', allocation = 33\<rparr>,
       \<lparr>item_name = ''Ethereum Sepolia'', allocation = 0\<rparr>]"
    unfolding expectedItems_def ex2_total
    by (simp add: floorPercent_div deployedConfigs_def CHAIN_CONFIGS_def thirdsRead_def rawBalance_def)
  have e: "map allocation (allocations (fetchAllocationData False CHAIN_CONFIGS (\<lambda>c. None))) =
      [0, 0, 0, 0]"
    by (simp add: fetchAllocationData_def CHAIN_CONFIGS_def balanceResults_def getVaultBalance_def
        allocationItems_def totalRaw_def configBalance_def allocationPercent_def sortedAllocations_def)
  have "mset (allocations (fetchAllocationData False deployedConfigs thirdsRead)) =
      mset (expectedItems thirdsRead deployedConfigs)"
    using aggregate_one_entry_per_network [of deployedConfigs thirdsRead] d t by blast
  then show ?thesis
    using aggregate_one_entry_per_network [of deployedConfigs thirdsRead] d t l z o v e x
      aggregate_one_entry_per_network [of CHAIN_CONFIGS "\<lambda>c. None"]
    by simp
qed

section \<open>Properties of the amount sanitizer\<close>

lemma split_dot_nonempty: "split_dot s \<noteq> []"
  by (induction s) (auto split: list.splits)

lemma split_dot_no_dot: "p \<in> set (split_dot s) \<Longrightarrow> CHR ''.'' \<notin> set p"
  by (induction s arbitrary: p) (auto split: list.splits if_splits)

lemma split_dot_length: "length (split_dot s) = Suc (countDots s)"
  by (induction s) (auto simp: countDots_def split: list.splits)

lemma split_dot_concat: "concat (split_dot s) = filter (\<lambda>c. c \<noteq> CHR ''.'') s"
  by (induction s) (auto split: list.splits)

lemma split_dot_subset: "p \<in> set (split_dot s) \<Longrightarrow> set p \<subseteq> set s"
proof -
  assume "p \<in> set (split_dot s)"
  then have "set p \<subseteq> set (concat (split_dot s))" by auto
  then show ?thesis by (auto simp: split_dot_concat)
qed

lemma split_dot_single: "split_dot s = [b] \<Longrightarrow> s = b"
  by (induction s arbitrary: b) (auto simp: split_dot_nonempty split: list.splits if_splits)

lemma split_dot_pair: "split_dot s = [a, b] \<Longrightarrow> s = a @ ''.'' @ b"
proof (induction s arbitrary: a)
  case Nil then show ?case by simp
next
  case (Cons c cs)
  show ?case
  proof (cases "c = CHR ''.''")
    case True
    with Cons.prems have "a = []" "split_dot cs = [b]" by auto
    then show ?thesis using True split_dot_single by auto
  next
    case False
    with Cons.prems obtain p where "split_dot cs = [p, b]" "a = c # p"
      by (auto split: list.splits)
    then show ?thesis using Cons.IH by auto
  qed
qed

lemma countDots_append: "countDots (a @ b) = countDots a + countDots b"
  by (simp add: countDots_def)

lemma countDots_none: "CHR ''.'' \<notin> set p \<Longrightarrow> countDots p = 0"
  by (induction p) (auto simp: countDots_def)

lemma countDots_keep: "countDots (keepNumeric v) = countDots v"
  by (induction v) (auto simp: countDots_def keepNumeric_def isAmountChar_def)

lemma fractionDigits_after: "CHR ''.'' \<notin> set a \<Longrightarrow> fractionDigits (a @ CHR ''.'' # b) = length b"
  by (induction a) (auto simp: fractionDigits_def)

lemma fractionDigits_none: "CHR ''.'' \<notin> set a \<Longrightarrow> fractionDigits a = 0"
  by (induction a) (auto simp: fractionDigits_def)

lemma concat_no_dot: "(\<And>p. p \<in> set ps \<Longrightarrow> CHR ''.'' \<notin> set p) \<Longrightarrow> CHR ''.'' \<notin> set (concat ps)"
  by auto

lemma sanitize_cases:
  obtains (one) b where "split_dot (keepNumeric v) = [b]" "sanitizeAmountInput v = b" "keepNumeric v = b"
  | (two) a b where "split_dot (keepNumeric v) = [a, b]" "keepNumeric v = a @ ''.'' @ b"
      "sanitizeAmountInput v = a @ ''.'' @ take 6 b"
  | (more) a ps where "split_dot (keepNumeric v) = a # ps" "length ps \<ge> 2"
      "sanitizeAmountInput v = a @ ''.'' @ concat ps"
proof (cases "split_dot (keepNumeric v)")
  case Nil then show ?thesis using split_dot_nonempty by blast
next
  case (Cons a ps)
  show ?thesis
  proof (cases ps)
    case Nil
    with Cons have "split_dot (keepNumeric v) = [a]" by simp
    moreover from this have "keepNumeric v = a" by (rule split_dot_single)
    ultimately show ?thesis using one by (simp add: sanitizeAmountInput_def Let_def)
  next
    case (Cons b qs)
    note ps = this
    show ?thesis
    proof (cases qs)
      case Nil
      with ps \<open>split_dot (keepNumeric v) = a # ps\<close> have sp: "split_dot (keepNumeric v) = [a, b]" by simp
      then have k: "keepNumeric v = a @ ''.'' @ b" by (rule split_dot_pair)
      have "sanitizeAmountInput v = a @ ''.'' @ take 6 b"
        using sp k by (simp add: sanitizeAmountInput_def Let_def)
      with sp k show ?thesis using two by blast
    next
      case (Cons q rs)
      with ps \<open>split_dot (keepNumeric v) = a # ps\<close>
      have sp: "split_dot (keepNumeric v) = a # ps" "length ps \<ge> 2" by simp_all
      then have "sanitizeAmountInput v = a @ ''.'' @ concat ps"
        by (simp add: sanitizeAmountInput_def Let_def)
      with sp show ?thesis using more by blast
    qed
  qed
qed

lemma countDots_dot: "CHR ''.'' \<notin> set a \<Longrightarrow> CHR ''.'' \<notin> set b \<Longrightarrow> countDots (a @ CHR ''.'' # b) = 1"
  using countDots_append [of a "CHR ''.'' # b"] countDots_none [of a] countDots_none [of b]
  by (simp add: countDots_def)

lemma keepNumeric_all: "list_all isAmountChar (keepNumeric v)"
  by (simp add: keepNumeric_def list_all_iff)

lemma list_all_part: "list_all P s \<Longrightarrow> p \<in> set (split_dot s) \<Longrightarrow> list_all P p"
  using split_dot_subset [of p s] by (auto simp: list_all_iff)

lemma sanitize_chars: "list_all isAmountChar (sanitizeAmountInput v)"
proof (cases v rule: sanitize_cases)
  case (one b) then show ?thesis using keepNumeric_all [of v] by simp
next
  case (two a b)
  have d: "isAmountChar CHR ''.''" by (simp add: isAmountChar_def)
  have "list_all isAmountChar a" "list_all isAmountChar b"
    using two(1) list_all_part [OF keepNumeric_all, of _ v] by simp_all
  moreover from this have "list_all isAmountChar (take 6 b)"
    by (auto simp: list_all_iff dest: in_set_takeD)
  ultimately show ?thesis using d by (simp add: two(3))
next
  case (more a ps)
  have d: "isAmountChar CHR ''.''" by (simp add: isAmountChar_def)
  have "list_all isAmountChar a" "\<And>p. p \<in> set ps \<Longrightarrow> list_all isAmountChar p"
    using more(1) list_all_part [OF keepNumeric_all, of _ v] by simp_all
  moreover from this have "list_all isAmountChar (concat ps)"
    by (auto simp: list_all_iff)
  ultimately show ?thesis using d by (simp add: more(3))
qed

lemma sanitize_one_dot: "countDots (sanitizeAmountInput v) \<le> 1"
proof (cases v rule: sanitize_cases)
  case (one b)
  then have "CHR ''.'' \<notin> set b" using split_dot_no_dot [of b "keepNumeric v"] by simp
  then show ?thesis using one by (simp add: countDots_none)
next
  case (two a b)
  then have "CHR ''.'' \<notin> set a" "CHR ''.'' \<notin> set b"
    using split_dot_no_dot [of _ "keepNumeric v"] by simp_all
  moreover from this have "CHR ''.'' \<notin> set (take 6 b)" by (meson in_set_takeD)
  ultimately show ?thesis using two(3) countDots_dot [of a "take 6 b"] by simp
next
  case (more a ps)
  then have "CHR ''.'' \<notin> set a" "\<And>p. p \<in> set ps \<Longrightarrow> CHR ''.'' \<notin> set p"
    using split_dot_no_dot [of _ "keepNumeric v"] by simp_all
  then have "CHR ''.'' \<notin> set a" "CHR ''.'' \<notin> set (concat ps)" by auto
  then show ?thesis using more(3) countDots_dot [of a "concat ps"] by simp
qed

lemma sanitize_six: "countDots v \<le> 1 \<Longrightarrow> fractionDigits (sanitizeAmountInput v) \<le> 6"
proof (cases v rule: sanitize_cases)
  case (one b)
  then have "CHR ''.'' \<notin> set b" using split_dot_no_dot [of b "keepNumeric v"] by simp
  then show ?thesis using one by (simp add: fractionDigits_none)
next
  case (two a b)
  then have "CHR ''.'' \<notin> set a" using split_dot_no_dot [of _ "keepNumeric v"] by simp
  then show ?thesis using two(3) fractionDigits_after [of a "take 6 b"] by simp
next
  case (more a ps)
  assume "countDots v \<le> 1"
  then have "length (split_dot (keepNumeric v)) \<le> 2"
    by (simp add: split_dot_length countDots_keep)
  with more show ?thesis by simp
qed

lemma sanitize_example_kept: "sanitizeAmountInput ''12.345678'' = ''12.345678''"
  by (simp add: sanitizeAmountInput_def keepNumeric_def isAmountChar_def Let_def)

lemma sanitize_example_cut: "sanitizeAmountInput ''12.3456789'' = ''12.345678''"
  by (simp add: sanitizeAmountInput_def keepNumeric_def isAmountChar_def Let_def)

lemma sanitize_example_two_points: "sanitizeAmountInput ''1.2.3456789'' = ''1.23456789''"
  by (simp add: sanitizeAmountInput_def keepNumeric_def isAmountChar_def Let_def)

text \<open>
  Claim C9, as amended. \<open>"12.345678"\<close> has six fractional digits and is returned unchanged;
  \<open>"12.3456789"\<close> is cut to \<open>"12.345678"\<close>. For every input the output consists of
  digits and decimal points only and holds at most one decimal point; when the input holds
  at most one decimal point the output has at most 6 fractional digits.
\<close>

theorem sanitize_amount:
  "sanitizeAmountInput ''12.345678'' = ''12.345678''
   \<and> sanitizeAmountInput ''12.3456789'' = ''12.345678''
   \<and> list_all isAmountChar (sanitizeAmountInput v)
   \<and> countDots (sanitizeAmountInput v) \<le> 1
   \<and> (countDots v \<le> 1 \<longrightarrow> fractionDigits (sanitizeAmountInput v) \<le> 6)"
  using sanitize_example_kept sanitize_example_cut sanitize_chars [of v] sanitize_one_dot [of v]
    sanitize_six [of v]
  by simp

text \<open>The amended statement of C9 used at an input with seven fractional digits.\<close>

theorem sanitize_amount_witness:
  "countDots ''12.3456789'' \<le> 1 \<and> fractionDigits (sanitizeAmountInput ''12.3456789'') \<le> 6
   \<and> fractionDigits (sanitizeAmountInput ''12.3456789'') = 6"
proof -
  have c: "countDots ''12.3456789'' \<le> 1" by (simp add: countDots_def)
  have "fractionDigits (sanitizeAmountInput ''12.3456789'') = 6"
    by (simp add: sanitize_example_cut fractionDigits_def)
  then show ?thesis using c sanitize_amount [of "''12.3456789''"] by simp
qed

text \<open>The sanitizer does not turn \<open>"12.345678"\<close> into \<open>"12.3456"\<close>.\<close>

theorem sanitize_amount_counterexample:
  "sanitizeAmountInput ''12.345678'' \<noteq> ''12.3456''"
  by (simp add: sanitize_example_kept)


section \<open>Properties of the balance reconciliation\<close>

lemma readNumber_positive: "jsPositive (readNumber r) \<longleftrightarrow> (\<exists>x. r = Some x \<and> 0 < x)"
proof (cases r)
  case None
  then show ?thesis by (simp add: readNumber_def jsPositive_def)
next
  case (Some x)
  show ?thesis
  proof (cases "x = 0")
    case True
    with Some show ?thesis by (simp add: readNumber_def jsPositive_def)
  next
    case False
    then have "jsPositive (numberOfUnits (int x))" by (simp add: numberOfUnits_positive)
    with Some False show ?thesis by (simp add: readNumber_def)
  qed
qed

lemma readNumber_examples:
  "readNumber (Some 700000) = Finite (3152519739159347 / 4503599627370496)"
  "readNumber (Some 100000) = Finite (3602879701896397 / 36028797018963968)"
  "readNumber (Some 100000000) = Finite 100"
  "readNumber (Some 200000000) = Finite 200"
  "readNumber (Some 0) = Finite 0"
  "readNumber None = Finite 0"
  using double_7_10 double_1_10 double_100 double_200
  by (simp_all add: readNumber_def numberOfUnits_def)

text \<open>
  Claim C8, as amended. With the three reads turned into numbers, the share price is
  \<open>totalAssets / totalSupply\<close> when the user's shares, the total assets and the total supply
  are all positive, and 1 otherwise. For positive shares the deposited value is
  \<open>(shares * totalAssets) / totalSupply\<close> when total assets and total supply are both
  positive, and \<open>shares\<close> otherwise; without positive shares it is 0 whatever the total
  assets and the total supply are. A number is positive exactly when its read is a positive
  amount. 100 shares with total assets and total supply 0 have the deposited value 100.
  Product and quotient are those of JavaScript numbers.
\<close>

theorem reconcile_position:
  "sharePrice (vaultValue s a t) =
     (if jsPositive s \<and> jsPositive a \<and> jsPositive t then jsDivide a t else Finite 1)
   \<and> (jsPositive s \<longrightarrow>
        userVaultValue (vaultValue s a t) =
          (if jsPositive a \<and> jsPositive t then jsDivide (jsTimes s a) t else s))
   \<and> (\<not> jsPositive s \<longrightarrow> userVaultValue (vaultValue s a t) = Finite 0)
   \<and> userPosition sb ta ts = vaultValue (readNumber sb) (readNumber ta) (readNumber ts)
   \<and> (jsPositive (readNumber r) \<longleftrightarrow> (\<exists>x. r = Some x \<and> 0 < x))
   \<and> userVaultValue (vaultValue (Finite 0) a t) = Finite 0
   \<and> userVaultValue (vaultValue (Finite 100) (Finite 0) (Finite 0)) = Finite 100"
  using readNumber_positive [of r]
  by (simp add: vaultValue_def userPosition_def jsPositive_def)

text \<open>
  The amended statement of C8 used at the reads 0.7, 0.1 and 0.1 USDC, where the rounded
  product and quotient give 0.6999999999999998, and at a user without shares.
\<close>

theorem reconcile_position_witness:
  "jsPositive (readNumber (Some 700000)) \<and> jsPositive (readNumber (Some 100000))
   \<and> userVaultValue (userPosition (Some 700000) (Some 100000) (Some 100000))
       = Finite (6305039478318693 / 9007199254740992)
   \<and> sharePrice (userPosition (Some 700000) (Some 100000) (Some 100000)) = Finite 1
   \<and> userVaultValue (userPosition (Some 700000) (Some 0) (Some 100000)) = readNumber (Some 700000)
   \<and> \<not> jsPositive (readNumber None)
   \<and> userVaultValue (userPosition None (Some 200000000) (Some 100000000)) = Finite 0
   \<and> userVaultValue (userPosition (Some 100000000) (Some 0) None) = Finite 100"
proof -
  let ?s = "Finite (3152519739159347 / 4503599627370496)"
  let ?a = "Finite (3602879701896397 / 36028797018963968)"
  have p: "jsPositive ?s" "jsPositive ?a" "\<not> jsPositive (Finite 0)" "jsPositive (Finite 100)"
    by (simp_all add: jsPositive_def)
  have 1: "userVaultValue (vaultValue ?s ?a ?a) = Finite (6305039478318693 / 9007199254740992)"
    "sharePrice (vaultValue ?s ?a ?a) = Finite 1"
    using p reconcile_position [of ?s ?a ?a] by (simp_all add: double_product double_quotient double_one)
  have 2: "userVaultValue (vaultValue ?s (Finite 0) ?a) = ?s"
    using p reconcile_position [of ?s "Finite 0" ?a] by simp
  have 3: "userVaultValue (vaultValue (Finite 0) (Finite 200) (Finite 100)) = Finite 0"
    using p reconcile_position [of "Finite 0" "Finite 200" "Finite 100"] by simp
  have 4: "userVaultValue (vaultValue (Finite 100) (Finite 0) (Finite 0)) = Finite 100"
    using reconcile_position [of "Finite 100" "Finite 0" "Finite 0"] by simp
  show ?thesis
    using p 1 2 3 4 by (simp add: userPosition_def readNumber_examples)
qed

text \<open>
  With a positive total supply but no shares held by the user the share price stays 1,
  although total assets are twice the total supply.
\<close>

theorem share_price_counterexample:
  "jsPositive (readNumber (Some 100000000))
   \<and> sharePrice (userPosition None (Some 200000000) (Some 100000000)) = Finite 1
   \<and> jsDivide (readNumber (Some 200000000)) (readNumber (Some 100000000)) = Finite 2
   \<and> sharePrice (userPosition None (Some 200000000) (Some 100000000))
       \<noteq> jsDivide (readNumber (Some 200000000)) (readNumber (Some 100000000))"
  by (simp add: userPosition_def vaultValue_def readNumber_examples jsPositive_def double_two)


section \<open>Properties of the deposit and withdrawal orchestration\<close>

subsection \<open>Handlers\<close>

lemma setupFailed_simps:
  "depositStep (depositSetupFailed err s) = DepositError"
  "submitted (depositSetupFailed err s) = submitted s"
  "usdcTx (depositSetupFailed err s) = usdcTx s"
  "vaultTx (depositSetupFailed err s) = vaultTx s"
  "withdrawStep (depositSetupFailed err s) = withdrawStep s"
  "oracleRequests (depositSetupFailed err s) = oracleRequests s"
  "allowanceRereads (depositSetupFailed err s) = allowanceRereads s"
  "currentState (depositSetupFailed err s) = currentState s"
  by (simp_all add: depositSetupFailed_def)

lemma writeVault_simps:
  "depositStep (writeVault w s) = depositStep s"
  "submitted (writeVault w s) = submitted s @ [w]"
  "usdcTx (writeVault w s) = usdcTx s"
  "vaultTx (writeVault w s) = Pending"
  "withdrawStep (writeVault w s) = withdrawStep s"
  "oracleRequests (writeVault w s) = oracleRequests s"
  "allowanceRereads (writeVault w s) = allowanceRereads s"
  "currentState (writeVault w s) = currentState s"
  by (simp_all add: writeVault_def)

lemma hcd_submitted: "submitted (handleConfirmDeposit e c s) = submitted s"
  by (simp add: handleConfirmDeposit_def resetErrors_def setupFailed_simps Let_def
      split: option.splits sum.splits)

lemma hcd_usdcTx: "usdcTx (handleConfirmDeposit e c s) = usdcTx s"
  by (simp add: handleConfirmDeposit_def resetErrors_def setupFailed_simps Let_def
      split: option.splits sum.splits)

lemma hcd_withdrawStep: "withdrawStep (handleConfirmDeposit e c s) = withdrawStep s"
  by (simp add: handleConfirmDeposit_def resetErrors_def setupFailed_simps Let_def
      split: option.splits sum.splits)

lemma hcd_rereads: "allowanceRereads (handleConfirmDeposit e c s) = allowanceRereads s"
  by (simp add: handleConfirmDeposit_def resetErrors_def setupFailed_simps Let_def
      split: option.splits sum.splits)

lemma hcd_view: "currentState (handleConfirmDeposit e c s) = currentState s"
  by (simp add: handleConfirmDeposit_def resetErrors_def setupFailed_simps Let_def
      split: option.splits sum.splits)

lemma hcd_step:
  "depositStep (handleConfirmDeposit e c s) = depositStep s
   \<or> depositStep (handleConfirmDeposit e c s) = Depositing
   \<or> depositStep (handleConfirmDeposit e c s) = DepositError"
  by (simp add: handleConfirmDeposit_def resetErrors_def setupFailed_simps Let_def
      split: option.splits sum.splits)

lemma hcd_oracle:
  "oracleRequests (handleConfirmDeposit e c s) = oracleRequests s
   \<or> (\<exists>r. oracleRequests (handleConfirmDeposit e c s) = oracleRequests s @ [r])"
  by (simp add: handleConfirmDeposit_def resetErrors_def setupFailed_simps Let_def
      split: option.splits sum.splits)

text \<open>A closure with which \<open>handleConfirmDeposit\<close> passes its guards.\<close>

lemma hcd_valid:
  assumes "c_address c = Some a" "a \<noteq> []" "c_chainId c = Some cid" "cid \<noteq> 0"
    "c_depositAmount c \<noteq> []" "isValidAmount e (c_depositAmount c)"
    "parseUnits e (c_depositAmount c) 6 = Inr w"
  shows "handleConfirmDeposit e c s =
         s\<lparr>errorMessage := [], vaultTx := Idle, depositStep := Depositing,
           oracleRequests := oracleRequests s @ [(w, a, cid)]\<rparr>"
  using assms by (simp add: handleConfirmDeposit_def resetErrors_def Let_def)

subsection \<open>Effects\<close>

lemmas hcd_keeps = hcd_submitted hcd_usdcTx hcd_withdrawStep hcd_rereads hcd_view

lemma approvalSucceeded_keeps:
  "submitted (approvalSucceeded e snap s) = submitted s"
  "usdcTx (approvalSucceeded e snap s) = usdcTx s"
  "withdrawStep (approvalSucceeded e snap s) = withdrawStep s"
  "allowanceRereads (approvalSucceeded e snap s) = allowanceRereads s"
  "currentState (approvalSucceeded e snap s) = currentState s"
  by (simp_all add: approvalSucceeded_def hcd_keeps)

lemma approvalSucceeded_idle:
  "\<not> (isTxSuccess (usdcTx snap) \<and> depositStep snap = Approving) \<Longrightarrow> approvalSucceeded e snap s = s"
  by (auto simp: approvalSucceeded_def)

lemma vaultSucceeded_keeps:
  "submitted (vaultSucceeded snap s) = submitted s"
  "usdcTx (vaultSucceeded snap s) = usdcTx s"
  "vaultTx (vaultSucceeded snap s) = vaultTx s"
  "oracleRequests (vaultSucceeded snap s) = oracleRequests s"
  "allowanceRereads (vaultSucceeded snap s) = allowanceRereads s"
  "currentState (vaultSucceeded snap s) = currentState s"
  by (simp_all add: vaultSucceeded_def Let_def)

lemma vaultSucceeded_step:
  "depositStep (vaultSucceeded snap s) =
     (if isTxSuccess (vaultTx snap) \<and> (depositStep snap = Depositing \<or> depositStep snap = DepositError)
      then DepositConfirming else depositStep s)"
  by (auto simp: vaultSucceeded_def Let_def)

lemma receiptFailed_keeps:
  "submitted (receiptFailed snap s) = submitted s"
  "usdcTx (receiptFailed snap s) = usdcTx s"
  "vaultTx (receiptFailed snap s) = vaultTx s"
  "oracleRequests (receiptFailed snap s) = oracleRequests s"
  "allowanceRereads (receiptFailed snap s) = allowanceRereads s"
  "currentState (receiptFailed snap s) = currentState s"
  by (simp_all add: receiptFailed_def Let_def)

lemma receiptFailed_step:
  "depositStep (receiptFailed snap s) =
     (if (isTxError (usdcTx snap) \<and> depositStep snap = Approving)
         \<or> (isTxError (vaultTx snap) \<and> depositStep snap = Depositing)
      then DepositError else depositStep s)"
  by (auto simp: receiptFailed_def Let_def)

lemma vaultWriteFailed_keeps:
  "submitted (vaultWriteFailed snap s) = submitted s"
  "usdcTx (vaultWriteFailed snap s) = usdcTx s"
  "vaultTx (vaultWriteFailed snap s) = vaultTx s"
  "oracleRequests (vaultWriteFailed snap s) = oracleRequests s"
  "allowanceRereads (vaultWriteFailed snap s) = allowanceRereads s"
  "currentState (vaultWriteFailed snap s) = currentState s"
  by (simp_all add: vaultWriteFailed_def Let_def split: option.splits)

lemma vaultWriteFailed_step:
  "depositStep (vaultWriteFailed snap s) =
     (if writeError (vaultTx snap) \<noteq> None \<and> depositStep snap = Depositing
      then DepositError else depositStep s)"
  by (auto simp: vaultWriteFailed_def Let_def split: option.splits)

lemmas block_keeps = approvalSucceeded_keeps vaultSucceeded_keeps receiptFailed_keeps vaultWriteFailed_keeps

lemma transactionEffect_keeps:
  "submitted (transactionEffect e snap s) = submitted s"
  "usdcTx (transactionEffect e snap s) = usdcTx s"
  "currentState (transactionEffect e snap s) = currentState s"
  by (simp_all add: transactionEffect_def Let_def block_keeps split: option.splits)

lemma walletErrorEffect_keeps:
  "submitted (walletErrorEffect e snap s) = submitted s"
  "usdcTx (walletErrorEffect e snap s) = usdcTx s"
  "vaultTx (walletErrorEffect e snap s) = vaultTx s"
  "oracleRequests (walletErrorEffect e snap s) = oracleRequests s"
  "allowanceRereads (walletErrorEffect e snap s) = allowanceRereads s"
  "currentState (walletErrorEffect e snap s) = currentState s"
  by (simp_all add: walletErrorEffect_def Let_def split: option.splits)

lemma walletErrorEffect_step:
  "depositStep (walletErrorEffect e snap s) =
     (if (writeError (usdcTx snap) \<noteq> None \<and> depositStep snap = Approving)
         \<or> (writeError (vaultTx snap) \<noteq> None \<and> depositStep snap = Depositing)
      then DepositError else depositStep s)"
  by (auto simp: walletErrorEffect_def Let_def split: option.splits)

lemma effects_keeps:
  "submitted (effects e s) = submitted s"
  "usdcTx (effects e s) = usdcTx s"
  "currentState (effects e s) = currentState s"
  by (simp_all add: effects_def walletErrorEffect_keeps transactionEffect_keeps)

lemma commit_keeps:
  "submitted (commit e s) = submitted s"
  "usdcTx (commit e s) = usdcTx s"
  "currentState (commit e s) = currentState s"
  by (simp_all add: commit_def effects_keeps)

lemma tx_exclusive:
  "isTxSuccess t \<Longrightarrow> \<not> isTxError t"
  "isTxSuccess t \<Longrightarrow> writeError t = None"
  "isTxSuccess t \<Longrightarrow> \<not> isPending t"
  "isTxSuccess t \<Longrightarrow> \<not> isTxLoading t"
  "isTxError t \<Longrightarrow> writeError t = None"
  by (auto simp: isTxSuccess_def isTxError_def writeError_def isPending_def isTxLoading_def
      split: tx_state.splits receipt.splits)

lemma transactionEffect_oracle:
  "oracleRequests (transactionEffect e snap s) = oracleRequests (approvalSucceeded e snap s)"
  by (simp add: transactionEffect_def Let_def block_keeps split: option.splits)

lemma transactionEffect_vaultTx:
  "vaultTx (transactionEffect e snap s) = vaultTx (approvalSucceeded e snap s)"
  by (simp add: transactionEffect_def Let_def block_keeps split: option.splits)

lemma transactionEffect_rereads:
  "allowanceRereads (transactionEffect e snap s) =
     (if depositStep snap = Approving \<and>
         (\<exists>m. writeError (usdcTx snap) = Some m \<and> \<not> isUserRejection m \<and> isMetaMaskSimulationError m)
      then allowanceRereads s @ [closureOf snap] else allowanceRereads s)"
  by (auto simp: transactionEffect_def Let_def block_keeps split: option.splits)

lemma transactionEffect_step_other:
  "depositStep snap \<noteq> Approving \<Longrightarrow>
   depositStep (transactionEffect e snap s) =
     (if (writeError (vaultTx snap) \<noteq> None \<or> isTxError (vaultTx snap)) \<and> depositStep snap = Depositing
      then DepositError
      else if isTxSuccess (vaultTx snap) \<and> (depositStep snap = Depositing \<or> depositStep snap = DepositError)
      then DepositConfirming else depositStep s)"
  by (auto simp: transactionEffect_def Let_def approvalSucceeded_idle vaultWriteFailed_step
      receiptFailed_step vaultSucceeded_step tx_exclusive split: option.splits)

lemma transactionEffect_depositing:
  "depositStep (transactionEffect e snap s) = Depositing \<Longrightarrow>
   depositStep (approvalSucceeded e snap s) = Depositing"
  by (auto simp: transactionEffect_def Let_def vaultWriteFailed_step
      receiptFailed_step vaultSucceeded_step split: option.splits if_splits)

lemma transactionEffect_approving:
  "depositStep (transactionEffect e snap s) = Approving \<Longrightarrow>
   depositStep (approvalSucceeded e snap s) = Approving"
  by (auto simp: transactionEffect_def Let_def vaultWriteFailed_step
      receiptFailed_step vaultSucceeded_step split: option.splits if_splits)

lemma approvalSucceeded_depositing:
  "depositStep (approvalSucceeded e snap s) = Depositing \<Longrightarrow>
   depositStep s = Depositing \<or> (depositStep snap = Approving \<and> isTxSuccess (usdcTx snap))"
  by (auto simp: approvalSucceeded_def split: if_splits)

lemma approvalSucceeded_approving:
  "depositStep (approvalSucceeded e snap s) = Approving \<Longrightarrow> depositStep s = Approving"
  using hcd_step [of e "closureOf snap" s]
  by (auto simp: approvalSucceeded_def split: if_splits)

lemma effects_oracle: "oracleRequests (effects e s) = oracleRequests (approvalSucceeded e s s)"
  by (simp add: effects_def walletErrorEffect_keeps transactionEffect_oracle)

lemma effects_vaultTx: "vaultTx (effects e s) = vaultTx (approvalSucceeded e s s)"
  by (simp add: effects_def walletErrorEffect_keeps transactionEffect_vaultTx)

lemma effects_rereads:
  "allowanceRereads (effects e s) =
     (if depositStep s = Approving \<and>
         (\<exists>m. writeError (usdcTx s) = Some m \<and> \<not> isUserRejection m \<and> isMetaMaskSimulationError m)
      then allowanceRereads s @ [closureOf s] else allowanceRereads s)"
  by (simp add: effects_def walletErrorEffect_keeps transactionEffect_rereads)

lemma effects_step_other:
  "depositStep s \<noteq> Approving \<Longrightarrow>
   depositStep (effects e s) =
     (if (writeError (vaultTx s) \<noteq> None \<or> isTxError (vaultTx s)) \<and> depositStep s = Depositing
      then DepositError
      else if isTxSuccess (vaultTx s) \<and> (depositStep s = Depositing \<or> depositStep s = DepositError)
      then DepositConfirming else depositStep s)"
  by (auto simp: effects_def walletErrorEffect_step transactionEffect_step_other)

lemma effects_depositing:
  "depositStep (effects e s) = Depositing \<Longrightarrow>
   depositStep s = Depositing \<or> (depositStep s = Approving \<and> isTxSuccess (usdcTx s))"
  using transactionEffect_depositing [of e s s] approvalSucceeded_depositing [of e s s]
  by (auto simp: effects_def walletErrorEffect_step split: if_splits)

lemma effects_approving:
  "depositStep (effects e s) = Approving \<Longrightarrow> depositStep s = Approving"
  using transactionEffect_approving [of e s s] approvalSucceeded_approving [of e s s]
  by (auto simp: effects_def walletErrorEffect_step split: if_splits)

lemma effects_other_keeps:
  "depositStep s \<noteq> Approving \<Longrightarrow> oracleRequests (effects e s) = oracleRequests s"
  "depositStep s \<noteq> Approving \<Longrightarrow> vaultTx (effects e s) = vaultTx s"
  "depositStep s \<noteq> Approving \<Longrightarrow> allowanceRereads (effects e s) = allowanceRereads s"
  by (simp_all add: effects_oracle effects_vaultTx effects_rereads approvalSucceeded_idle)

lemma commit_depositing:
  "depositStep (commit e s) = Depositing \<Longrightarrow>
   depositStep s = Depositing \<or> (depositStep s = Approving \<and> isTxSuccess (usdcTx s))"
  unfolding commit_def
  using effects_depositing [of e "effects e s"] effects_depositing [of e s]
    effects_approving [of e s] effects_keeps(2) [of e s]
  by auto

lemma commit_oracle:
  "oracleRequests (commit e s) \<noteq> oracleRequests s \<Longrightarrow>
   depositStep s = Approving \<and> isTxSuccess (usdcTx s)"
proof -
  assume a: "oracleRequests (commit e s) \<noteq> oracleRequests s"
  have one: "oracleRequests (effects e t) \<noteq> oracleRequests t \<Longrightarrow>
      depositStep t = Approving \<and> isTxSuccess (usdcTx t)" for t
    by (auto simp: effects_oracle approvalSucceeded_def split: if_splits)
  show ?thesis
  proof (cases "oracleRequests (effects e s) = oracleRequests s")
    case False then show ?thesis using one by blast
  next
    case True
    with a have "oracleRequests (effects e (effects e s)) \<noteq> oracleRequests (effects e s)"
      by (simp add: commit_def)
    then have "depositStep (effects e s) = Approving \<and> isTxSuccess (usdcTx (effects e s))"
      using one by blast
    then show ?thesis using effects_approving [of e s] by (simp add: effects_keeps)
  qed
qed

lemma commit_error:
  "depositStep s = DepositError \<Longrightarrow> \<not> isTxSuccess (vaultTx s) \<Longrightarrow>
   depositStep (commit e s) = DepositError"
  by (simp add: commit_def effects_step_other effects_other_keeps)

lemma commit_depositing_idle:
  "depositStep s = Depositing \<Longrightarrow> vaultTx s = Idle \<or> vaultTx s = Pending \<Longrightarrow>
   depositStep (commit e s) = Depositing"
  by (auto simp: commit_def effects_step_other effects_other_keeps writeError_def isTxError_def
      isTxSuccess_def)

lemma resume_failure:
  "confirmDepositResume e req (Inl err) s = depositSetupFailed err s"
  by (simp add: confirmDepositResume_def)

subsection \<open>Two rounds of effects suffice\<close>

lemma quiescent_effects:
  assumes "quiescent e t"
  shows "effects e t = t"
proof -
  have q1: "\<not> (isTxSuccess (vaultTx t) \<and> (depositStep t = Depositing \<or> depositStep t = DepositError))"
    and q2: "\<not> (isTxSuccess (vaultTx t) \<and> (withdrawStep t = Withdrawing \<or> withdrawStep t = WithdrawError))"
    and q3: "\<not> (isTxError (usdcTx t) \<and> depositStep t = Approving)"
    and q4: "\<not> (isTxError (vaultTx t) \<and> depositStep t = Depositing)"
    and q5: "\<not> (isTxError (vaultTx t) \<and> withdrawStep t = Withdrawing)"
    and q6: "writeError (usdcTx t) = None \<or> depositStep t \<noteq> Approving"
    and q7: "writeError (vaultTx t) = None \<or> (depositStep t \<noteq> Depositing \<and> withdrawStep t \<noteq> Withdrawing)"
    and q8: "isTxSuccess (usdcTx t) \<and> depositStep t = Approving \<longrightarrow>
             handleConfirmDeposit e (closureOf t) t = t"
    using assms unfolding quiescent_def by blast+
  have 1: "approvalSucceeded e t t = t"
    using q8 by (simp add: approvalSucceeded_def)
  have 2: "vaultSucceeded t x = x" for x
    using q1 q2 by (auto simp: vaultSucceeded_def Let_def)
  have 3: "receiptFailed t x = x" for x
    using q3 q4 q5 by (auto simp: receiptFailed_def Let_def)
  have 4: "vaultWriteFailed t x = x" for x
    using q7 by (cases "writeError (vaultTx t)") (auto simp: vaultWriteFailed_def Let_def)
  have 5: "walletErrorEffect e t x = x" for x
    using q6 q7
    by (cases "writeError (vaultTx t)"; cases "writeError (usdcTx t)")
      (auto simp: walletErrorEffect_def Let_def)
  have "transactionEffect e t t = t"
    using q6 by (cases "writeError (usdcTx t)") (auto simp: transactionEffect_def Let_def 1 2 3 4)
  then show ?thesis by (simp add: effects_def 5)
qed

lemma hcd_trichotomy:
  "(\<forall>t. handleConfirmDeposit e c t = t)
   \<or> (\<forall>t. handleConfirmDeposit e c t = t\<lparr>depositValidationError := ''Please enter a valid amount''\<rparr>)
   \<or> (\<forall>t. (depositStep (handleConfirmDeposit e c t) = Depositing
             \<or> depositStep (handleConfirmDeposit e c t) = DepositError)
            \<and> vaultTx (handleConfirmDeposit e c t) = Idle)"
proof (cases "c_address c")
  case None then show ?thesis by (simp add: handleConfirmDeposit_def)
next
  case (Some a)
  note A = this
  show ?thesis
  proof (cases "c_chainId c")
    case None then show ?thesis using A by (simp add: handleConfirmDeposit_def)
  next
    case (Some cid)
    show ?thesis
    proof (cases "a = [] \<or> cid = 0 \<or> c_depositAmount c = []")
      case True then show ?thesis using A Some by (simp add: handleConfirmDeposit_def)
    next
      case False
      show ?thesis
      proof (cases "isValidAmount e (c_depositAmount c)")
        case False
        then show ?thesis using A Some \<open>\<not> (a = [] \<or> cid = 0 \<or> c_depositAmount c = [])\<close>
          by (simp add: handleConfirmDeposit_def)
      next
        case True
        then have "\<forall>t. (depositStep (handleConfirmDeposit e c t) = Depositing
             \<or> depositStep (handleConfirmDeposit e c t) = DepositError)
            \<and> vaultTx (handleConfirmDeposit e c t) = Idle"
          using A Some False
          by (simp add: handleConfirmDeposit_def resetErrors_def depositSetupFailed_def Let_def
              split: sum.splits)
        then show ?thesis by blast
      qed
    qed
  qed
qed

lemma effects_withdrawStep:
  "withdrawStep (effects e t) =
     (if (isTxError (vaultTx t) \<or> writeError (vaultTx t) \<noteq> None) \<and> withdrawStep t = Withdrawing
      then WithdrawError
      else if isTxSuccess (vaultTx t) \<and> (withdrawStep t = Withdrawing \<or> withdrawStep t = WithdrawError)
      then WithdrawConfirming else withdrawStep t)"
proof -
  have 1: "withdrawStep (vaultSucceeded t x) =
      (if isTxSuccess (vaultTx t) \<and> (withdrawStep t = Withdrawing \<or> withdrawStep t = WithdrawError)
       then WithdrawConfirming else withdrawStep x)" for x
    by (auto simp: vaultSucceeded_def Let_def)
  have 2: "withdrawStep (receiptFailed t x) =
      (if isTxError (vaultTx t) \<and> withdrawStep t = Withdrawing then WithdrawError else withdrawStep x)" for x
    by (auto simp: receiptFailed_def Let_def)
  have 3: "withdrawStep (vaultWriteFailed t x) =
      (if writeError (vaultTx t) \<noteq> None \<and> withdrawStep t = Withdrawing then WithdrawError
       else withdrawStep x)" for x
    by (auto simp: vaultWriteFailed_def Let_def split: option.splits)
  have 4: "withdrawStep (walletErrorEffect e t x) =
      (if writeError (vaultTx t) \<noteq> None \<and> withdrawStep t = Withdrawing then WithdrawError
       else withdrawStep x)" for x
    by (auto simp: walletErrorEffect_def Let_def split: option.splits)
  have 5: "writeError (vaultTx t) = None \<or> withdrawStep t \<noteq> Withdrawing \<Longrightarrow>
      withdrawStep (transactionEffect e t t) =
      (if isTxError (vaultTx t) \<and> withdrawStep t = Withdrawing then WithdrawError
       else if isTxSuccess (vaultTx t) \<and> (withdrawStep t = Withdrawing \<or> withdrawStep t = WithdrawError)
       then WithdrawConfirming else withdrawStep t)"
    by (auto simp: transactionEffect_def Let_def 1 2 3 approvalSucceeded_keeps tx_exclusive
        split: option.splits)
  show ?thesis
  proof (cases "writeError (vaultTx t) \<noteq> None \<and> withdrawStep t = Withdrawing")
    case True then show ?thesis by (simp add: effects_def 4)
  next
    case False
    then show ?thesis using 5 by (auto simp: effects_def 4 tx_exclusive)
  qed
qed

lemma effects_step_approving:
  "depositStep t = Approving \<Longrightarrow>
   depositStep (effects e t) =
     (if isTxError (usdcTx t) \<or> writeError (usdcTx t) \<noteq> None then DepositError
      else if isTxSuccess (usdcTx t) then depositStep (handleConfirmDeposit e (closureOf t) t)
      else Approving)"
proof -
  assume a: "depositStep t = Approving"
  show ?thesis
  proof (cases "writeError (usdcTx t) \<noteq> None")
    case True then show ?thesis using a by (simp add: effects_def walletErrorEffect_step)
  next
    case False
    then have "depositStep (transactionEffect e t t) =
        (if isTxError (usdcTx t) then DepositError else depositStep (approvalSucceeded e t t))"
      using a by (simp add: transactionEffect_def Let_def vaultWriteFailed_step receiptFailed_step
          vaultSucceeded_step)
    then show ?thesis using a False
      by (auto simp: effects_def walletErrorEffect_step approvalSucceeded_def tx_exclusive)
  qed
qed

lemma effects_closure: "closureOf (effects e t) = closureOf t"
proof -
  have h: "closureOf (handleConfirmDeposit e c x) = closureOf x" for c x
    by (simp add: closureOf_def handleConfirmDeposit_def resetErrors_def depositSetupFailed_def Let_def
        split: option.splits sum.splits)
  have 1: "closureOf (approvalSucceeded e t x) = closureOf x" for x
    by (simp add: approvalSucceeded_def h)
  have 2: "closureOf (vaultSucceeded t x) = closureOf x" for x
    by (simp add: closureOf_def vaultSucceeded_def Let_def)
  have 3: "closureOf (receiptFailed t x) = closureOf x" for x
    by (simp add: closureOf_def receiptFailed_def Let_def)
  have 4: "closureOf (vaultWriteFailed t x) = closureOf x" for x
    by (simp add: closureOf_def vaultWriteFailed_def Let_def split: option.splits)
  have 5: "closureOf (walletErrorEffect e t x) = closureOf x" for x
    by (simp add: closureOf_def walletErrorEffect_def Let_def split: option.splits)
  have 6: "closureOf (x\<lparr>depositStep := a, errorMessage := b\<rparr>) = closureOf x" for x a b
    by (simp add: closureOf_def)
  have 7: "closureOf (x\<lparr>allowanceRereads := a\<rparr>) = closureOf x" for x a
    by (simp add: closureOf_def)
  have "closureOf (transactionEffect e t t) = closureOf t"
    by (simp add: transactionEffect_def Let_def 1 2 3 4 6 7 split: option.splits)
  then show ?thesis by (simp add: effects_def 5)
qed

lemma effects_validation:
  "depositValidationError (effects e t) = depositValidationError (approvalSucceeded e t t)"
proof -
  have 2: "depositValidationError (vaultSucceeded t x) = depositValidationError x" for x
    by (simp add: vaultSucceeded_def Let_def)
  have 3: "depositValidationError (receiptFailed t x) = depositValidationError x" for x
    by (simp add: receiptFailed_def Let_def)
  have 4: "depositValidationError (vaultWriteFailed t x) = depositValidationError x" for x
    by (simp add: vaultWriteFailed_def Let_def split: option.splits)
  have 5: "depositValidationError (walletErrorEffect e t x) = depositValidationError x" for x
    by (simp add: walletErrorEffect_def Let_def split: option.splits)
  have "depositValidationError (transactionEffect e t t) = depositValidationError (approvalSucceeded e t t)"
    by (simp add: transactionEffect_def Let_def 2 3 4 split: option.splits)
  then show ?thesis by (simp add: effects_def 5)
qed

lemma hcd_vaultTx: "vaultTx (handleConfirmDeposit e c t) = vaultTx t \<or> vaultTx (handleConfirmDeposit e c t) = Idle"
  using hcd_trichotomy [of e c] by auto

lemma effects_vaultTx_cases: "vaultTx (effects e t) = vaultTx t \<or> vaultTx (effects e t) = Idle"
  using hcd_vaultTx [of e "closureOf t" t] by (auto simp: effects_vaultTx approvalSucceeded_def)

lemma idle_neutral: "\<not> isTxSuccess Idle" "\<not> isTxError Idle" "writeError Idle = None"
  by (simp_all add: isTxSuccess_def isTxError_def writeError_def)

lemma effects_quiescent: "quiescent e (effects e (effects e s))"
proof -
  let ?s1 = "effects e s"
  let ?s2 = "effects e ?s1"
  let ?c = "closureOf s"
  have u: "usdcTx ?s1 = usdcTx s" "usdcTx ?s2 = usdcTx s" by (simp_all add: effects_keeps)
  have c: "closureOf ?s1 = ?c" "closureOf ?s2 = ?c" by (simp_all add: effects_closure)
  have v1: "vaultTx ?s1 = vaultTx s \<or> vaultTx ?s1 = Idle" by (rule effects_vaultTx_cases)
  have v2: "vaultTx ?s2 = vaultTx ?s1 \<or> vaultTx ?s2 = Idle" by (rule effects_vaultTx_cases)
  text \<open>The deposit step stays approving over a round only without a failure of the approval.\<close>
  have app1: "depositStep ?s1 = Approving \<Longrightarrow> depositStep s = Approving
      \<and> \<not> isTxError (usdcTx s) \<and> writeError (usdcTx s) = None
      \<and> (isTxSuccess (usdcTx s) \<longrightarrow> depositStep (handleConfirmDeposit e ?c s) = Approving)"
    using effects_approving [of e s] effects_step_approving [of s e]
    by (auto split: if_splits)
  have app2: "depositStep ?s2 = Approving \<Longrightarrow> depositStep ?s1 = Approving
      \<and> (isTxSuccess (usdcTx s) \<longrightarrow> depositStep (handleConfirmDeposit e ?c ?s1) = Approving)"
    using effects_approving [of e ?s1] effects_step_approving [of ?s1 e] u c
    by (auto split: if_splits)
  text \<open>When \<open>handleConfirmDeposit\<close> leaves the step approving it returned at one of its guards.\<close>
  have guard: "depositStep t = Approving \<Longrightarrow> depositStep (handleConfirmDeposit e ?c t) = Approving \<Longrightarrow>
      (\<forall>x. handleConfirmDeposit e ?c x = x)
      \<or> (\<forall>x. handleConfirmDeposit e ?c x = x\<lparr>depositValidationError := ''Please enter a valid amount''\<rparr>)" for t
  proof -
    assume h: "depositStep (handleConfirmDeposit e ?c t) = Approving"
    have "\<not> (\<forall>t. (depositStep (handleConfirmDeposit e ?c t) = Depositing
             \<or> depositStep (handleConfirmDeposit e ?c t) = DepositError)
            \<and> vaultTx (handleConfirmDeposit e ?c t) = Idle)"
    proof
      assume "\<forall>t. (depositStep (handleConfirmDeposit e ?c t) = Depositing
             \<or> depositStep (handleConfirmDeposit e ?c t) = DepositError)
            \<and> vaultTx (handleConfirmDeposit e ?c t) = Idle"
      then have "depositStep (handleConfirmDeposit e ?c t) = Depositing
             \<or> depositStep (handleConfirmDeposit e ?c t) = DepositError" by blast
      with h show False by simp
    qed
    then show ?thesis using hcd_trichotomy [of e ?c] by blast
  qed
  have Q2: "isTxError (usdcTx ?s2) \<or> writeError (usdcTx ?s2) \<noteq> None \<longrightarrow> depositStep ?s2 \<noteq> Approving"
    using app2 app1 u by auto
  have Q4: "isTxSuccess (usdcTx ?s2) \<and> depositStep ?s2 = Approving \<longrightarrow>
      handleConfirmDeposit e (closureOf ?s2) ?s2 = ?s2"
  proof (intro impI, elim conjE)
    assume su: "isTxSuccess (usdcTx ?s2)" and a2: "depositStep ?s2 = Approving"
    then have a1: "depositStep ?s1 = Approving"
      and h1: "depositStep (handleConfirmDeposit e ?c ?s1) = Approving"
      using app2 u by auto
    from guard [OF a1 h1] show "handleConfirmDeposit e (closureOf ?s2) ?s2 = ?s2"
    proof
      assume "\<forall>x. handleConfirmDeposit e ?c x = x"
      then show ?thesis by (simp add: c)
    next
      assume inv: "\<forall>x. handleConfirmDeposit e ?c x = x\<lparr>depositValidationError := ''Please enter a valid amount''\<rparr>"
      have "approvalSucceeded e ?s1 ?s1 = handleConfirmDeposit e ?c ?s1"
        using su a1 u c by (simp add: approvalSucceeded_def)
      then have "depositValidationError ?s2 = ''Please enter a valid amount''"
        using inv by (simp add: effects_validation)
      then have "?s2\<lparr>depositValidationError := ''Please enter a valid amount''\<rparr> = ?s2"
        by simp
      then show ?thesis using inv by (simp add: c)
    qed
  qed
  have Q3: "isTxError (vaultTx ?s2) \<or> writeError (vaultTx ?s2) \<noteq> None \<longrightarrow>
      depositStep ?s2 \<noteq> Depositing \<and> withdrawStep ?s2 \<noteq> Withdrawing"
  proof
    assume f: "isTxError (vaultTx ?s2) \<or> writeError (vaultTx ?s2) \<noteq> None"
    then have e2: "vaultTx ?s2 = vaultTx ?s1" using v2 by (auto simp: idle_neutral)
    have w: "withdrawStep ?s2 \<noteq> Withdrawing"
      using f e2 by (auto simp: effects_withdrawStep [of e ?s1])
    have d: "depositStep ?s2 \<noteq> Depositing"
    proof
      assume dd: "depositStep ?s2 = Depositing"
      then consider "depositStep ?s1 = Depositing"
        | "depositStep ?s1 = Approving" "isTxSuccess (usdcTx ?s1)"
        using effects_depositing [of e ?s1] by blast
      then show False
      proof cases
        case 1
        then have "depositStep ?s2 = DepositError"
          using f e2 by (auto simp: effects_step_other [of ?s1 e])
        with dd show False by simp
      next
        case 2
        then have "depositStep (handleConfirmDeposit e ?c ?s1) = Depositing"
          using dd effects_step_approving [of ?s1 e] c by (auto split: if_splits)
        then have "vaultTx (handleConfirmDeposit e ?c ?s1) = Idle"
          using hcd_trichotomy [of e ?c] 2(1) by auto
        then have "vaultTx ?s2 = Idle"
          using 2 c by (simp add: effects_vaultTx approvalSucceeded_def)
        with f show False by (simp add: idle_neutral)
      qed
    qed
    from d w show "depositStep ?s2 \<noteq> Depositing \<and> withdrawStep ?s2 \<noteq> Withdrawing" by simp
  qed
  have Q1: "isTxSuccess (vaultTx ?s2) \<longrightarrow> depositStep ?s2 \<noteq> Depositing \<and> depositStep ?s2 \<noteq> DepositError
      \<and> withdrawStep ?s2 \<noteq> Withdrawing \<and> withdrawStep ?s2 \<noteq> WithdrawError"
  proof
    assume su: "isTxSuccess (vaultTx ?s2)"
    then have e2: "vaultTx ?s2 = vaultTx ?s1" using v2 by (auto simp: idle_neutral)
    with su have s1: "isTxSuccess (vaultTx ?s1)" by simp
    then have e1: "vaultTx ?s1 = vaultTx s" using v1 by (auto simp: idle_neutral)
    with s1 have s0: "isTxSuccess (vaultTx s)" by simp
    have w1: "withdrawStep ?s1 \<noteq> Withdrawing \<and> withdrawStep ?s1 \<noteq> WithdrawError"
      using s0 by (auto simp: effects_withdrawStep [of e s] tx_exclusive)
    have w2: "withdrawStep ?s2 \<noteq> Withdrawing \<and> withdrawStep ?s2 \<noteq> WithdrawError"
      using s1 w1 by (auto simp: effects_withdrawStep [of e ?s1] tx_exclusive)
    have d: "depositStep ?s2 \<noteq> Depositing \<and> depositStep ?s2 \<noteq> DepositError"
    proof (cases "depositStep ?s1 = Approving")
      case False
      then show ?thesis using s1 by (auto simp: effects_step_other [of ?s1 e] tx_exclusive)
    next
      case True
      then have n: "\<not> isTxError (usdcTx s)" "writeError (usdcTx s) = None"
        and h: "isTxSuccess (usdcTx s) \<longrightarrow> depositStep (handleConfirmDeposit e ?c s) = Approving"
        and a0: "depositStep s = Approving"
        using app1 by auto
      have "depositStep ?s2 = Approving"
      proof (cases "isTxSuccess (usdcTx s)")
        case False
        then show ?thesis using True n u by (simp add: effects_step_approving [of ?s1 e])
      next
        case su: True
        with h a0 have "(\<forall>x. handleConfirmDeposit e ?c x = x)
            \<or> (\<forall>x. handleConfirmDeposit e ?c x = x\<lparr>depositValidationError := ''Please enter a valid amount''\<rparr>)"
          using guard [of s] by blast
        then have "depositStep (handleConfirmDeposit e ?c ?s1) = depositStep ?s1" by auto
        then show ?thesis using True n u c su by (simp add: effects_step_approving [of ?s1 e])
      qed
      then show ?thesis by simp
    qed
    from d w2 show "depositStep ?s2 \<noteq> Depositing \<and> depositStep ?s2 \<noteq> DepositError
      \<and> withdrawStep ?s2 \<noteq> Withdrawing \<and> withdrawStep ?s2 \<noteq> WithdrawError" by simp
  qed
  show ?thesis unfolding quiescent_def using Q1 Q2 Q3 Q4 by blast
qed

lemma commit_stable: "effects e (commit e s) = commit e s"
  unfolding commit_def by (rule quiescent_effects) (rule effects_quiescent)


subsection \<open>Oracle failure (C7)\<close>

lemma commit_other_keeps:
  assumes "depositStep t \<noteq> Approving"
  shows "vaultTx (commit e t) = vaultTx t" "oracleRequests (commit e t) = oracleRequests t"
proof -
  have "depositStep (effects e t) \<noteq> Approving" using assms effects_approving [of e t] by blast
  then show "vaultTx (commit e t) = vaultTx t" "oracleRequests (commit e t) = oracleRequests t"
    using assms by (simp_all add: commit_def effects_other_keeps)
qed

lemma hcd_reset:
  "oracleRequests (handleConfirmDeposit e c s) \<noteq> oracleRequests s \<Longrightarrow>
   vaultTx (handleConfirmDeposit e c s) = Idle"
  by (auto simp: handleConfirmDeposit_def resetErrors_def depositSetupFailed_def Let_def
      split: option.splits sum.splits if_splits)

lemma failed_reply_step:
  assumes "i < length (oracleRequests s)" "\<not> isTxSuccess (vaultTx s)"
  shows "depositStep (step e (OracleReplied i (Inl err)) s) = DepositError"
    "submitted (step e (OracleReplied i (Inl err)) s) = submitted s"
    "vaultTx (step e (OracleReplied i (Inl err)) s) = vaultTx s"
    "oracleRequests (step e (OracleReplied i (Inl err)) s) = removeAt i (oracleRequests s)"
proof -
  let ?t = "depositSetupFailed err (s\<lparr>oracleRequests := removeAt i (oracleRequests s)\<rparr>)"
  have st: "step e (OracleReplied i (Inl err)) s = commit e ?t"
    using assms(1) by (simp add: step_def resume_failure)
  have t: "depositStep ?t = DepositError" "vaultTx ?t = vaultTx s" "submitted ?t = submitted s"
    "oracleRequests ?t = removeAt i (oracleRequests s)"
    by (simp_all add: setupFailed_simps depositSetupFailed_def)
  show "depositStep (step e (OracleReplied i (Inl err)) s) = DepositError"
    using t assms(2) commit_error [of ?t e] by (simp add: st)
  show "submitted (step e (OracleReplied i (Inl err)) s) = submitted s"
    using t by (simp add: st commit_keeps)
  show "vaultTx (step e (OracleReplied i (Inl err)) s) = vaultTx s"
    using t commit_other_keeps(1) [of ?t e] by (simp add: st)
  show "oracleRequests (step e (OracleReplied i (Inl err)) s) = removeAt i (oracleRequests s)"
    using t commit_other_keeps(2) [of ?t e] by (simp add: st)
qed

text \<open>
  Claim C7, as amended. \<open>handleConfirmDeposit\<close> submits nothing when it asks the oracle,
  and it has reset the vault write hook by then. When the request fails, the continuation
  moves the deposit to the error step and submits nothing: the list of submitted writes
  and the vault write hook are as they were when the answer arrived, also after the
  effects have run (when the hook holds no success of an earlier transaction), and the
  request is no longer outstanding. What was submitted before the answer, such as the
  approval write of the attempt, stays submitted.
\<close>

theorem oracle_failure_aborts:
  "depositStep (confirmDepositResume e req (Inl err) s) = DepositError
   \<and> submitted (confirmDepositResume e req (Inl err) s) = submitted s
   \<and> vaultTx (confirmDepositResume e req (Inl err) s) = vaultTx s
   \<and> (i < length (oracleRequests s) \<and> \<not> isTxSuccess (vaultTx s) \<longrightarrow>
        depositStep (step e (OracleReplied i (Inl err)) s) = DepositError
        \<and> submitted (step e (OracleReplied i (Inl err)) s) = submitted s
        \<and> vaultTx (step e (OracleReplied i (Inl err)) s) = vaultTx s
        \<and> oracleRequests (step e (OracleReplied i (Inl err)) s) = removeAt i (oracleRequests s))
   \<and> submitted (handleConfirmDeposit e c s) = submitted s
   \<and> (oracleRequests (handleConfirmDeposit e c s) \<noteq> oracleRequests s \<longrightarrow>
        vaultTx (handleConfirmDeposit e c s) = Idle)"
  using failed_reply_step [of i s e err] hcd_reset [of e c s]
  by (simp add: resume_failure setupFailed_simps hcd_submitted)

text \<open>
  The amended statement of C7 used at the request of a deposit that needs no approval and
  at the failing oracle answer of a first deposit.
\<close>

theorem oracle_failure_aborts_witness:
  "0 < length (oracleRequests (run digitsEnv (take 5 oracleDownRun) (initial user 421614 None)))
   \<and> \<not> isTxSuccess (vaultTx (run digitsEnv (take 5 oracleDownRun) (initial user 421614 None)))
   \<and> depositStep (step digitsEnv (OracleReplied 0 (Inl (JsError ''Oracle request failed'')))
        (run digitsEnv (take 5 oracleDownRun) (initial user 421614 None))) = DepositError
   \<and> submitted (step digitsEnv (OracleReplied 0 (Inl (JsError ''Oracle request failed'')))
        (run digitsEnv (take 5 oracleDownRun) (initial user 421614 None)))
       = submitted (run digitsEnv (take 5 oracleDownRun) (initial user 421614 None))
   \<and> vaultTx (step digitsEnv (OracleReplied 0 (Inl (JsError ''Oracle request failed'')))
        (run digitsEnv (take 5 oracleDownRun) (initial user 421614 None))) = Idle
   \<and> oracleRequests (step digitsEnv (OracleReplied 0 (Inl (JsError ''Oracle request failed'')))
        (run digitsEnv (take 5 oracleDownRun) (initial user 421614 None))) = []
   \<and> oracleRequests (handleConfirmDeposit digitsEnv
        (closureOf (run digitsEnv (take 2 (answeredRun plainSnapshot)) (initial user 421614 (Some 20000000))))
        (run digitsEnv (take 2 (answeredRun plainSnapshot)) (initial user 421614 (Some 20000000))))
       = [(10000000, user, 421614)]
   \<and> vaultTx (handleConfirmDeposit digitsEnv
        (closureOf (run digitsEnv (take 2 (answeredRun plainSnapshot)) (initial user 421614 (Some 20000000))))
        (run digitsEnv (take 2 (answeredRun plainSnapshot)) (initial user 421614 (Some 20000000)))) = Idle"
proof -
  let ?s = "run digitsEnv (take 5 oracleDownRun) (initial user 421614 None)"
  let ?a = "run digitsEnv (take 2 (answeredRun plainSnapshot)) (initial user 421614 (Some 20000000))"
  have h: "0 < length (oracleRequests ?s)" "\<not> isTxSuccess (vaultTx ?s)" "vaultTx ?s = Idle"
    "removeAt 0 (oracleRequests ?s) = []"
    by code_simp+
  have k: "oracleRequests ?a = []"
    "oracleRequests (handleConfirmDeposit digitsEnv (closureOf ?a) ?a) = [(10000000, user, 421614)]"
    by code_simp+
  have 1: "depositStep (step digitsEnv (OracleReplied 0 (Inl (JsError ''Oracle request failed''))) ?s)
        = DepositError
      \<and> submitted (step digitsEnv (OracleReplied 0 (Inl (JsError ''Oracle request failed''))) ?s)
        = submitted ?s
      \<and> vaultTx (step digitsEnv (OracleReplied 0 (Inl (JsError ''Oracle request failed''))) ?s)
        = vaultTx ?s
      \<and> oracleRequests (step digitsEnv (OracleReplied 0 (Inl (JsError ''Oracle request failed''))) ?s)
        = removeAt 0 (oracleRequests ?s)"
    using h oracle_failure_aborts [of digitsEnv _ "JsError ''Oracle request failed''" ?s 0]
    by blast
  have 2: "vaultTx (handleConfirmDeposit digitsEnv (closureOf ?a) ?a) = Idle"
    using k oracle_failure_aborts [of digitsEnv _ _ ?a _ "closureOf ?a"] by simp
  show ?thesis using h k 1 2 by simp
qed

text \<open>
  A first deposit needs an approval: when the oracle then fails, the attempt ends in the
  error step with the approval write submitted.
\<close>

theorem oracle_failure_counterexample:
  "submitted (initial user 421614 None) = []
   \<and> depositStep (run digitsEnv oracleDownRun (initial user 421614 None)) = DepositError
   \<and> map call (submitted (run digitsEnv oracleDownRun (initial user 421614 None))) =
       [approve ''0xE168d95f8d1B8EC167A63c8E696076EC8EE95337'' maxAmount]"
  by code_simp

subsection \<open>Deposit path selection (C6)\<close>

lemma depositRequest_plain:
  assumes "getContractAddress cid = Inr vault"
    and "balance snapshot = ''0'' \<or> BigInt e (balance snapshot) = Inr 0"
  shows "depositRequest e (w, a, cid) snapshot = Inr \<lparr>target = vault, call = deposit w a, gas = 350000\<rparr>"
  using assms by (auto simp: depositRequest_def noCrossChainAssets_def)

lemma depositRequest_signed:
  assumes "getContractAddress cid = Inr vault"
    and "balance snapshot \<noteq> ''0''" "BigInt e (balance snapshot) = Inr b" "b \<noteq> 0"
    and "BigInt e (nonce snapshot) = Inr n" "BigInt e (deadline snapshot) = Inr d"
    and "BigInt e (assets snapshot) = Inr x"
  shows "depositRequest e (w, a, cid) snapshot =
         Inr \<lparr>target = vault,
              call = depositWithExtraInfoViaSignature w a
                       (CrossChainBalanceSnapshot b n d x (receiver snapshot)) (signature snapshot),
              gas = 350000\<rparr>"
  using assms by (simp add: depositRequest_def noCrossChainAssets_def)

lemma depositRequest_malformed:
  assumes "balance snapshot \<noteq> ''0''" "BigInt e (balance snapshot) = Inl err"
  shows "depositRequest e (w, a, cid) snapshot = Inl err"
  using assms by (simp add: depositRequest_def noCrossChainAssets_def)

lemma resume_request:
  "depositRequest e req snapshot = Inr r \<Longrightarrow>
   confirmDepositResume e req (Inr snapshot) s = writeVault r s"
  "depositRequest e req snapshot = Inl err \<Longrightarrow>
   confirmDepositResume e req (Inr snapshot) s = depositSetupFailed err s"
  by (simp_all add: confirmDepositResume_def)

text \<open>
  Claim C6, as amended. On a chain whose vault address resolves, an oracle snapshot whose
  balance is the string \<open>"0"\<close> or converts to 0 makes the continuation submit the plain
  deposit with (amount, receiver); a snapshot whose balance, nonce, deadline and assets are
  accepted by \<open>BigInt\<close> with a nonzero balance makes it submit the deposit-with-signature
  call with the tuple (balance, nonce, deadline, assets, receiver) and the signature. In
  both cases exactly one write joins the submitted writes. A snapshot whose balance
  \<open>BigInt\<close> rejects submits no write and ends in the error step.
\<close>

theorem deposit_path_selection:
  "(getContractAddress cid = Inr vault \<and>
      (balance snapshot = ''0'' \<or> BigInt e (balance snapshot) = Inr 0) \<longrightarrow>
      confirmDepositResume e (w, a, cid) (Inr snapshot) s =
        writeVault \<lparr>target = vault, call = deposit w a, gas = 350000\<rparr> s)
   \<and> (getContractAddress cid = Inr vault \<and> balance snapshot \<noteq> ''0'' \<and>
      BigInt e (balance snapshot) = Inr b \<and> b \<noteq> 0 \<and> BigInt e (nonce snapshot) = Inr n \<and>
      BigInt e (deadline snapshot) = Inr d \<and> BigInt e (assets snapshot) = Inr x \<longrightarrow>
      confirmDepositResume e (w, a, cid) (Inr snapshot) s =
        writeVault \<lparr>target = vault,
                    call = depositWithExtraInfoViaSignature w a
                             (CrossChainBalanceSnapshot b n d x (receiver snapshot))
                             (signature snapshot),
                    gas = 350000\<rparr> s)
   \<and> submitted (writeVault r s) = submitted s @ [r]
   \<and> (balance snapshot \<noteq> ''0'' \<and> BigInt e (balance snapshot) = Inl err \<longrightarrow>
        submitted (confirmDepositResume e (w, a, cid) (Inr snapshot) s) = submitted s
        \<and> depositStep (confirmDepositResume e (w, a, cid) (Inr snapshot) s) = DepositError)"
  using depositRequest_plain [of cid vault snapshot e w a]
    depositRequest_signed [of cid vault snapshot e b n d x w a]
    depositRequest_malformed [of snapshot e err w a cid]
  by (auto simp: resume_request writeVault_simps setupFailed_simps)

lemma example_registry: "getContractAddress 421614 = Inr ''0xE168d95f8d1B8EC167A63c8E696076EC8EE95337''"
  by (simp add: getContractAddress_def CONTRACT_ADDRESSES_def)

text \<open>The amended statement of C6 used at a plain, a cross-chain and a malformed snapshot.\<close>

theorem deposit_path_selection_witness:
  "getContractAddress 421614 = Inr ''0xE168d95f8d1B8EC167A63c8E696076EC8EE95337''
   \<and> balance plainSnapshot = ''0''
   \<and> submitted (confirmDepositResume digitsEnv (10000000, user, 421614) (Inr plainSnapshot)
        (initial user 421614 None)) =
       [\<lparr>target = ''0xE168d95f8d1B8EC167A63c8E696076EC8EE95337'', call = deposit 10000000 user,
         gas = 350000\<rparr>]
   \<and> balance crossChainSnapshot \<noteq> ''0''
   \<and> BigInt digitsEnv (balance crossChainSnapshot) = Inr 5000000
   \<and> BigInt digitsEnv (nonce crossChainSnapshot) = Inr 7
   \<and> BigInt digitsEnv (deadline crossChainSnapshot) = Inr 1790000000
   \<and> BigInt digitsEnv (assets crossChainSnapshot) = Inr 10000000
   \<and> submitted (confirmDepositResume digitsEnv (10000000, user, 421614) (Inr crossChainSnapshot)
        (initial user 421614 None)) =
       [\<lparr>target = ''0xE168d95f8d1B8EC167A63c8E696076EC8EE95337'',
         call = depositWithExtraInfoViaSignature 10000000 user
                  (CrossChainBalanceSnapshot 5000000 7 1790000000 10000000 user) ''0x1b'',
         gas = 350000\<rparr>]
   \<and> balance malformedSnapshot \<noteq> ''0''
   \<and> BigInt digitsEnv (balance malformedSnapshot) = Inl (JsError ''Cannot convert to a BigInt'')
   \<and> submitted (confirmDepositResume digitsEnv (10000000, user, 421614) (Inr malformedSnapshot)
        (initial user 421614 None)) = []"
proof -
  have p: "balance plainSnapshot = ''0''" by (simp add: plainSnapshot_def)
  have c: "balance crossChainSnapshot \<noteq> ''0''"
    "BigInt digitsEnv (balance crossChainSnapshot) = Inr 5000000"
    "BigInt digitsEnv (nonce crossChainSnapshot) = Inr 7"
    "BigInt digitsEnv (deadline crossChainSnapshot) = Inr 1790000000"
    "BigInt digitsEnv (assets crossChainSnapshot) = Inr 10000000"
    "receiver crossChainSnapshot = user" "signature crossChainSnapshot = ''0x1b''"
    by (simp_all add: crossChainSnapshot_def plainSnapshot_def digitsEnv_def)
  have m: "balance malformedSnapshot \<noteq> ''0''"
    "BigInt digitsEnv (balance malformedSnapshot) = Inl (JsError ''Cannot convert to a BigInt'')"
    by (simp_all add: malformedSnapshot_def plainSnapshot_def digitsEnv_def)
  have i: "submitted (initial user 421614 None) = []" by (simp add: initial_def)
  show ?thesis
    using example_registry p c m i
      deposit_path_selection [of 421614 "''0xE168d95f8d1B8EC167A63c8E696076EC8EE95337''"
        plainSnapshot digitsEnv 10000000 user "initial user 421614 None" 0 0 0 0 _ _]
      deposit_path_selection [of 421614 "''0xE168d95f8d1B8EC167A63c8E696076EC8EE95337''"
        crossChainSnapshot digitsEnv 10000000 user "initial user 421614 None"
        5000000 7 1790000000 10000000 _ _]
      deposit_path_selection [of 421614 "''0xE168d95f8d1B8EC167A63c8E696076EC8EE95337''"
        malformedSnapshot digitsEnv 10000000 user "initial user 421614 None"
        0 0 0 0 _ "JsError ''Cannot convert to a BigInt''"]
    by (simp add: writeVault_simps)
qed

text \<open>
  An oracle snapshot is obtained during a deposit attempt and neither deposit write is
  issued: its balance is \<open>"1.5"\<close>, which \<open>BigInt\<close> rejects.
\<close>

theorem deposit_path_counterexample:
  "depositStep (run digitsEnv (take 3 (answeredRun malformedSnapshot)) (initial user 421614 (Some 20000000)))
     = Depositing
   \<and> length (oracleRequests (run digitsEnv (take 3 (answeredRun malformedSnapshot))
        (initial user 421614 (Some 20000000)))) = 1
   \<and> submitted (run digitsEnv (answeredRun malformedSnapshot) (initial user 421614 (Some 20000000))) = []
   \<and> depositStep (run digitsEnv (answeredRun malformedSnapshot) (initial user 421614 (Some 20000000)))
       = DepositError"
  by code_simp

subsection \<open>The chain without a vault (C10)\<close>

lemma optimism_vault:
  "getContractAddress 11155420 = Inl (JsError ''AAVE Vault not yet deployed on Optimism Sepolia. Coming soon!'')"
  by (simp add: getContractAddress_def CONTRACT_ADDRESSES_def)

lemma optimism_usdc: "getUSDCAddress 11155420 = Inr ''0x5fd84259d66Cd46123540766Be93DFE6D43130D7''"
  by (simp add: getUSDCAddress_def USDC_ADDRESSES_def)

lemma optimism_request: "\<exists>err. depositRequest e (w, a, 11155420) snapshot = Inl err"
  by (simp add: depositRequest_def optimism_vault split: sum.splits bool.splits)

lemma optimism_resume:
  "submitted (confirmDepositResume e (w, a, 11155420) reply s) = submitted s"
proof (cases reply)
  case (Inl err) then show ?thesis by (simp add: resume_failure setupFailed_simps)
next
  case (Inr snapshot)
  obtain err where "depositRequest e (w, a, 11155420) snapshot = Inl err"
    using optimism_request by blast
  with Inr show ?thesis by (simp add: resume_request setupFailed_simps)
qed

lemma optimism_resume_chain:
  "accountChainId (confirmDepositResume e req reply s) = accountChainId s"
  "oracleRequests (confirmDepositResume e req reply s) = oracleRequests s"
  "allowanceRereads (confirmDepositResume e req reply s) = allowanceRereads s"
  by (simp_all add: confirmDepositResume_def depositSetupFailed_def writeVault_def
      split: sum.splits)

lemma optimism_withdraw:
  "accountChainId s = Some 11155420 \<Longrightarrow> submitted (handleWithdraw e s) = submitted s"
  by (simp add: handleWithdraw_def optimism_vault Let_def split: option.splits sum.splits)

lemma optimism_approve:
  "accountChainId s = Some 11155420 \<Longrightarrow> submitted (handleApproveUSDC e s) = submitted s"
  by (simp add: handleApproveUSDC_def optimism_vault optimism_usdc resetErrors_def Let_def
      split: option.splits sum.splits)

lemma withdraw_chain:
  "accountChainId (handleWithdraw e s) = accountChainId s"
  "oracleRequests (handleWithdraw e s) = oracleRequests s"
  "allowanceRereads (handleWithdraw e s) = allowanceRereads s"
  by (simp_all add: handleWithdraw_def writeVault_def Let_def split: option.splits sum.splits)

lemma approve_chain:
  "accountChainId (handleApproveUSDC e s) = accountChainId s"
  "oracleRequests (handleApproveUSDC e s) = oracleRequests s"
  "allowanceRereads (handleApproveUSDC e s) = allowanceRereads s"
  by (simp_all add: handleApproveUSDC_def writeUSDC_def resetErrors_def Let_def
      split: option.splits sum.splits)

lemma hcd_chain: "accountChainId (handleConfirmDeposit e c s) = accountChainId s"
  by (simp add: handleConfirmDeposit_def resetErrors_def depositSetupFailed_def Let_def
      split: option.splits sum.splits)

lemma hcd_oracle_chain:
  "list_all (\<lambda>r. snd (snd r) = cid) (oracleRequests s) \<Longrightarrow> c_chainId c = Some cid \<Longrightarrow>
   list_all (\<lambda>r. snd (snd r) = cid) (oracleRequests (handleConfirmDeposit e c s))"
  by (simp add: handleConfirmDeposit_def resetErrors_def depositSetupFailed_def Let_def
      split: option.splits sum.splits)

lemma hcd_onChain:
  "onChain cid s \<Longrightarrow> c_chainId c = Some cid \<Longrightarrow> onChain cid (handleConfirmDeposit e c s)"
  by (simp add: onChain_def hcd_chain hcd_oracle_chain hcd_rereads)

lemma block_chain:
  "accountChainId (approvalSucceeded e snap s) = accountChainId s"
  "accountChainId (vaultSucceeded snap s) = accountChainId s"
  "accountChainId (receiptFailed snap s) = accountChainId s"
  "accountChainId (vaultWriteFailed snap s) = accountChainId s"
  "accountChainId (walletErrorEffect e snap s) = accountChainId s"
  by (simp_all add: approvalSucceeded_def vaultSucceeded_def receiptFailed_def vaultWriteFailed_def
      walletErrorEffect_def hcd_chain Let_def split: option.splits)

lemma transactionEffect_chain: "accountChainId (transactionEffect e snap s) = accountChainId s"
  by (simp add: transactionEffect_def block_chain Let_def split: option.splits)

lemma effects_chain: "accountChainId (effects e s) = accountChainId s"
  by (simp add: effects_def block_chain transactionEffect_chain)

lemma effects_onChain: "onChain cid s \<Longrightarrow> onChain cid (effects e s)"
proof -
  assume a: "onChain cid s"
  then have c: "c_chainId (closureOf s) = Some cid" by (simp add: onChain_def closureOf_def)
  have "list_all (\<lambda>r. snd (snd r) = cid) (oracleRequests (approvalSucceeded e s s))"
    using a c hcd_oracle_chain [of cid s "closureOf s" e]
    by (simp add: approvalSucceeded_def onChain_def)
  moreover have "list_all (\<lambda>c. c_chainId c = Some cid) (allowanceRereads (effects e s))"
    using a c by (simp add: effects_rereads onChain_def)
  ultimately show ?thesis using a by (simp add: onChain_def effects_chain effects_oracle)
qed

lemma commit_onChain: "onChain cid s \<Longrightarrow> onChain cid (commit e s)"
  by (simp add: commit_def effects_onChain)

lemma list_all_removeAt: "list_all P xs \<Longrightarrow> list_all P (removeAt i xs)"
  by (auto simp: removeAt_def list_all_iff dest: in_set_takeD in_set_dropD)

lemma list_all_nth: "list_all P xs \<Longrightarrow> i < length xs \<Longrightarrow> P (xs ! i)"
  by (simp add: list_all_length)

lemma closureOf_chain: "onChain cid s \<Longrightarrow> c_chainId (closureOf s) = Some cid"
  by (simp add: onChain_def closureOf_def)

lemma onChain_fields:
  "accountChainId t = accountChainId s \<Longrightarrow> oracleRequests t = oracleRequests s \<Longrightarrow>
   allowanceRereads t = allowanceRereads s \<Longrightarrow> onChain cid s \<Longrightarrow> onChain cid t"
  by (simp add: onChain_def)

lemma initiate_onChain: "onChain cid s \<Longrightarrow> onChain cid (handleInitiateDeposit e s)"
  using hcd_onChain [of cid s "closureOf s" e] onChain_fields [of "handleApproveUSDC e s" s cid]
  by (simp add: handleInitiateDeposit_def closureOf_chain approve_chain)

lemma resume_onChain: "onChain cid s \<Longrightarrow> onChain cid (confirmDepositResume e req reply s)"
  using onChain_fields [of "confirmDepositResume e req reply s" s cid]
  by (simp add: optimism_resume_chain)

lemma reread_onChain:
  "onChain cid s \<Longrightarrow> c_chainId c = Some cid \<Longrightarrow> onChain cid (allowanceRereadDone e c r s)"
  using hcd_onChain [of cid s c e]
  by (auto simp: allowanceRereadDone_def onChain_def split: option.splits)

lemma handle_onChain:
  assumes "onChain cid s" "enabled e s ev"
  shows "onChain cid (handle e ev s)"
proof (cases ev)
  case ClickInitiateDeposit
  then show ?thesis using assms by (simp add: initiate_onChain)
next
  case ClickConfirm
  then show ?thesis using assms by (simp add: hcd_onChain closureOf_chain)
next
  case ClickWithdraw
  then show ?thesis using assms onChain_fields [of "handleWithdraw e s" s cid]
    by (simp add: withdraw_chain)
next
  case (OracleReplied i reply)
  have "onChain cid (s\<lparr>oracleRequests := removeAt i (oracleRequests s)\<rparr>)"
    using assms(1) by (simp add: onChain_def list_all_removeAt)
  then show ?thesis using OracleReplied by (simp add: resume_onChain)
next
  case (AllowanceReread i r)
  have "onChain cid (s\<lparr>allowanceRereads := removeAt i (allowanceRereads s), usdcAllowance := r\<rparr>)"
    using assms(1) by (simp add: onChain_def list_all_removeAt)
  moreover have "c_chainId (allowanceRereads s ! i) = Some cid"
    using assms AllowanceReread list_all_nth [of "\<lambda>c. c_chainId c = Some cid" "allowanceRereads s" i]
    by (simp add: onChain_def)
  ultimately show ?thesis using AllowanceReread by (simp add: reread_onChain)
qed (use assms(1) in \<open>simp_all add: onChain_def handleDeposit_def handleWithdrawClick_def
    handleCancel_def handleRetry_def\<close>)

lemma initiate_optimism:
  "onChain 11155420 s \<Longrightarrow> submitted (handleInitiateDeposit e s) = submitted s"
  by (simp add: handleInitiateDeposit_def hcd_submitted optimism_approve onChain_def)

lemma reread_submitted: "submitted (allowanceRereadDone e c r s) = submitted s"
  by (simp add: allowanceRereadDone_def hcd_submitted split: option.splits)

lemma handle_optimism:
  assumes "onChain 11155420 s" "enabled e s ev"
  shows "submitted (handle e ev s) = submitted s"
proof (cases ev)
  case ClickInitiateDeposit
  then show ?thesis using assms by (simp add: initiate_optimism)
next
  case ClickWithdraw
  then show ?thesis using assms by (simp add: optimism_withdraw onChain_def)
next
  case (OracleReplied i reply)
  have "snd (snd (oracleRequests s ! i)) = 11155420"
    using assms OracleReplied list_all_nth [of "\<lambda>r. snd (snd r) = 11155420" "oracleRequests s" i]
    by (simp add: onChain_def)
  then obtain w a where "oracleRequests s ! i = (w, a, 11155420)"
    by (metis prod.collapse)
  then show ?thesis using OracleReplied by (simp add: optimism_resume)
qed (simp_all add: hcd_submitted reread_submitted handleDeposit_def handleWithdrawClick_def
    handleCancel_def handleRetry_def)

lemma step_optimism:
  "onChain 11155420 s \<Longrightarrow>
   onChain 11155420 (step e ev s) \<and> submitted (step e ev s) = submitted s"
  by (simp add: step_def commit_onChain handle_onChain commit_keeps handle_optimism)

lemma run_optimism:
  "onChain 11155420 s \<Longrightarrow> submitted (run e evs s) = submitted s"
proof (induction evs arbitrary: s)
  case Nil then show ?case by (simp add: run_def)
next
  case (Cons ev evs)
  have "run e (ev # evs) s = run e evs (step e ev s)" by (simp add: run_def)
  then show ?case using Cons.IH [of "step e ev s"] step_optimism [OF Cons.prems] by simp
qed

lemma initial_onChain: "onChain cid (initial a cid allowance)"
  by (simp add: onChain_def initial_def)

text \<open>
  Claim C10. For chain id 11155420 (Optimism Sepolia) the lookup of the vault address throws
  the "not yet deployed" error of its own case of the dispatch (not the error of an
  unsupported chain), while the lookup of the USDC address returns an address. No deposit
  request and no withdraw write can be built for that chain, and in every run of a
  component connected to that chain the list of submitted writes stays empty.
\<close>

theorem no_write_without_vault:
  "getContractAddress 11155420 =
     Inl (JsError ''AAVE Vault not yet deployed on Optimism Sepolia. Coming soon!'')
   \<and> getContractAddress 11155420 \<noteq> Inl (unsupportedChain 11155420)
   \<and> getUSDCAddress 11155420 = Inr ''0x5fd84259d66Cd46123540766Be93DFE6D43130D7''
   \<and> (\<exists>err. depositRequest e (w, a, 11155420) snapshot = Inl err)
   \<and> submitted (handleWithdraw e (s\<lparr>accountChainId := Some 11155420\<rparr>)) = submitted s
   \<and> submitted (run e evs (initial a 11155420 allowance)) = []"
proof -
  have "getContractAddress 11155420 \<noteq> Inl (unsupportedChain 11155420)"
    by (simp add: optimism_vault unsupportedChain_def)
  moreover have "submitted (run e evs (initial a 11155420 allowance)) = []"
    using run_optimism [OF initial_onChain] by (simp add: initial_def)
  moreover have "submitted (handleWithdraw e (s\<lparr>accountChainId := Some 11155420\<rparr>)) = submitted s"
    using optimism_withdraw [of "s\<lparr>accountChainId := Some 11155420\<rparr>" e] by simp
  ultimately show ?thesis using optimism_vault optimism_usdc optimism_request by blast
qed

subsection \<open>Approval before deposit (C2)\<close>

text \<open>
  An event after whose handler neither the deposit step is depositing, nor the approval
  receipt reports success, nor a further oracle request is outstanding.
\<close>

lemma commit_quiet:
  assumes "depositStep s1 \<noteq> Depositing" "\<not> (depositStep s1 = Approving \<and> isTxSuccess (usdcTx s1))"
    "length (oracleRequests s1) \<le> n"
  shows "depositStep (commit e s1) \<noteq> Depositing \<and> length (oracleRequests (commit e s1)) \<le> n"
proof -
  have "depositStep (commit e s1) \<noteq> Depositing"
    using assms commit_depositing [of e s1] by blast
  moreover have "oracleRequests (commit e s1) = oracleRequests s1"
    using assms commit_oracle [of e s1] by blast
  ultimately show ?thesis using assms(3) by simp
qed

lemma in_flight_not_success:
  "isPending t \<or> isTxLoading t \<Longrightarrow> \<not> isTxSuccess t"
  "\<not> isTxSuccess (Submitted h Loading)"
  "\<not> isTxSuccess (WriteFailed m)"
  "\<not> isTxSuccess (settle t False)"
  by (auto simp: isPending_def isTxLoading_def isTxSuccess_def settle_def
      split: tx_state.splits receipt.splits)

lemma resume_step:
  "depositStep (confirmDepositResume e req reply s) = depositStep s
   \<or> depositStep (confirmDepositResume e req reply s) = DepositError"
  by (simp add: confirmDepositResume_def setupFailed_simps writeVault_simps split: sum.splits)

lemma resume_usdcTx: "usdcTx (confirmDepositResume e req reply s) = usdcTx s"
  by (simp add: confirmDepositResume_def setupFailed_simps writeVault_simps split: sum.splits)

lemma withdraw_keeps:
  "depositStep (handleWithdraw e s) = depositStep s"
  "usdcTx (handleWithdraw e s) = usdcTx s"
  by (simp_all add: handleWithdraw_def writeVault_def Let_def split: option.splits sum.splits)

lemma length_removeAt: "length (removeAt i xs) \<le> length xs"
  by (simp add: removeAt_def)

lemma handle_quiet_approving:
  assumes "depositStep s = Approving" "isPending (usdcTx s) \<or> isTxLoading (usdcTx s)"
    "enabled e s ev" "ev \<noteq> UsdcReceipt True" "\<not> (\<exists>i n. ev = AllowanceReread i (Some n) \<and> 0 < n)"
  shows "depositStep (handle e ev s) \<noteq> Depositing
         \<and> \<not> (depositStep (handle e ev s) = Approving \<and> isTxSuccess (usdcTx (handle e ev s)))
         \<and> length (oracleRequests (handle e ev s)) \<le> length (oracleRequests s)"
proof (cases ev)
  case (UsdcReceipt ok)
  then show ?thesis using assms by (cases ok) (simp_all add: in_flight_not_success)
next
  case (OracleReplied i reply)
  then show ?thesis
    using assms
      resume_step [of e "oracleRequests s ! i" reply "s\<lparr>oracleRequests := removeAt i (oracleRequests s)\<rparr>"]
      length_removeAt [of i "oracleRequests s"]
    by (auto simp: resume_usdcTx optimism_resume_chain in_flight_not_success)
next
  case (AllowanceReread i r)
  then show ?thesis using assms
    by (cases r) (auto simp: allowanceRereadDone_def in_flight_not_success)
next
  case ClickWithdraw
  then show ?thesis using assms by (simp add: withdraw_keeps withdraw_chain in_flight_not_success)
qed (use assms in \<open>auto simp: in_flight_not_success handleDeposit_def handleWithdrawClick_def
    handleCancel_def handleRetry_def\<close>)

lemma handle_submitted:
  "submitted (handle e ev s) \<noteq> submitted s \<Longrightarrow>
   ev = ClickInitiateDeposit \<or> ev = ClickWithdraw \<or> (\<exists>i reply. ev = OracleReplied i reply)"
  by (cases ev) (auto simp: hcd_submitted reread_submitted handleDeposit_def
      handleWithdrawClick_def handleCancel_def handleRetry_def split: if_splits)

lemma step_submitted:
  "submitted (step e ev s) \<noteq> submitted s \<Longrightarrow>
   (ev = ClickInitiateDeposit \<and> currentState s = DepositView \<and> depositStep s = DepositInput)
   \<or> (ev = ClickWithdraw \<and> currentState s = WithdrawView \<and> withdrawStep s = WithdrawInput)
   \<or> (\<exists>i reply. ev = OracleReplied i reply)"
proof -
  assume a: "submitted (step e ev s) \<noteq> submitted s"
  then have en: "enabled e s ev" by (cases "enabled e s ev") (simp_all add: step_def)
  with a have "submitted (handle e ev s) \<noteq> submitted s" by (simp add: step_def commit_keeps)
  then have "ev = ClickInitiateDeposit \<or> ev = ClickWithdraw \<or> (\<exists>i reply. ev = OracleReplied i reply)"
    by (rule handle_submitted)
  with en show ?thesis by auto
qed

lemma approving_step:
  assumes "depositStep s = Approving" "isPending (usdcTx s) \<or> isTxLoading (usdcTx s)"
    and "depositStep (step e ev s) = Depositing
         \<or> length (oracleRequests s) < length (oracleRequests (step e ev s))"
  shows "ev = UsdcReceipt True \<or> (\<exists>i n. ev = AllowanceReread i (Some n) \<and> 0 < n)"
proof (rule ccontr)
  assume n: "\<not> (ev = UsdcReceipt True \<or> (\<exists>i n. ev = AllowanceReread i (Some n) \<and> 0 < n))"
  show False
  proof (cases "enabled e s ev")
    case False
    then have "step e ev s = s" by (simp add: step_def)
    with assms show False by simp
  next
    case True
    then have "depositStep (handle e ev s) \<noteq> Depositing
         \<and> \<not> (depositStep (handle e ev s) = Approving \<and> isTxSuccess (usdcTx (handle e ev s)))
         \<and> length (oracleRequests (handle e ev s)) \<le> length (oracleRequests s)"
      using handle_quiet_approving [OF assms(1,2) True] n by blast
    then have "depositStep (commit e (handle e ev s)) \<noteq> Depositing
         \<and> length (oracleRequests (commit e (handle e ev s))) \<le> length (oracleRequests s)"
      using commit_quiet [of "handle e ev s" "length (oracleRequests s)" e] by blast
    with True assms(3) show False by (simp add: step_def)
  qed
qed

lemma confirm_disabled:
  "isPending (usdcTx s) \<or> isTxLoading (usdcTx s) \<Longrightarrow> \<not> enabled e s ClickConfirm"
  by simp


subsubsection \<open>Where the oracle is asked\<close>

lemma hcd_account:
  "address (handleConfirmDeposit e c s) = address s"
  "accountChainId (handleConfirmDeposit e c s) = accountChainId s"
  "depositAmount (handleConfirmDeposit e c s) = depositAmount s"
  by (simp_all add: handleConfirmDeposit_def resetErrors_def setupFailed_simps depositSetupFailed_def
      Let_def split: option.splits sum.splits)

lemma approve_fields:
  "address (handleApproveUSDC e s) = address s"
  "accountChainId (handleApproveUSDC e s) = accountChainId s"
  "oracleRequests (handleApproveUSDC e s) = oracleRequests s"
  by (simp_all add: handleApproveUSDC_def resetErrors_def writeUSDC_def Let_def
      split: option.splits sum.splits)

lemma resume_fields:
  "address (confirmDepositResume e req reply s) = address s"
  "accountChainId (confirmDepositResume e req reply s) = accountChainId s"
  "depositAmount (confirmDepositResume e req reply s) = depositAmount s"
  "oracleRequests (confirmDepositResume e req reply s) = oracleRequests s"
  by (simp_all add: confirmDepositResume_def depositSetupFailed_def writeVault_def split: sum.splits)

lemma withdraw_fields:
  "address (handleWithdraw e s) = address s"
  "accountChainId (handleWithdraw e s) = accountChainId s"
  "depositAmount (handleWithdraw e s) = depositAmount s"
  "oracleRequests (handleWithdraw e s) = oracleRequests s"
  by (simp_all add: handleWithdraw_def writeVault_def Let_def split: option.splits sum.splits)

lemma reread_fields:
  "address (allowanceRereadDone e c r s) = address s"
  "accountChainId (allowanceRereadDone e c r s) = accountChainId s"
  "depositAmount (allowanceRereadDone e c r s) = depositAmount s"
  "usdcTx (allowanceRereadDone e c r s) = usdcTx s"
  by (simp_all add: allowanceRereadDone_def hcd_account hcd_usdcTx split: option.splits)

lemma handle_account:
  "address (handle e ev s) = address s \<and> accountChainId (handle e ev s) = accountChainId s"
  by (cases ev) (simp_all add: hcd_account approve_fields resume_fields withdraw_fields reread_fields
      handleInitiateDeposit_def handleDeposit_def handleWithdrawClick_def handleCancel_def
      handleRetry_def)

lemma commit_account:
  "address (commit e s) = address s \<and> accountChainId (commit e s) = accountChainId s"
proof -
  have "closureOf (commit e s) = closureOf s" by (simp add: commit_def effects_closure)
  then show ?thesis by (simp add: closureOf_def)
qed

lemma step_account:
  "address (step e ev s) = address s \<and> accountChainId (step e ev s) = accountChainId s"
  by (simp add: step_def commit_account handle_account)

lemma approve_started:
  assumes "address s = Some a" "accountChainId s = Some cid"
    "getContractAddress cid = Inr vault" "getUSDCAddress cid = Inr usdc"
  shows "handleApproveUSDC e s = s
         \<or> handleApproveUSDC e s = s\<lparr>depositValidationError := ''Please enter a valid amount''\<rparr>
         \<or> usdcTx (handleApproveUSDC e s) = Pending"
  using assms by (simp add: handleApproveUSDC_def resetErrors_def writeUSDC_def Let_def)

text \<open>
  On a chain whose addresses resolve, the approving step is entered with the approval
  write handed to the wallet: its write hook is not idle.
\<close>

lemma handle_approving_tx:
  assumes j: "depositStep s = Approving \<longrightarrow> usdcTx s \<noteq> Idle" and en: "enabled e s ev"
    and acc: "address s = Some a" "accountChainId s = Some cid"
    and res: "getContractAddress cid = Inr vault" "getUSDCAddress cid = Inr usdc"
    and ap: "depositStep (handle e ev s) = Approving"
  shows "usdcTx (handle e ev s) \<noteq> Idle"
proof (cases ev)
  case ClickInitiateDeposit
  show ?thesis
  proof (cases "depositAmount s \<noteq> [] \<and> \<not> hasEnoughAllowance e s (depositAmount s)")
    case True
    then have h: "handle e ev s = handleApproveUSDC e s"
      using ClickInitiateDeposit by (simp add: handleInitiateDeposit_def)
    from approve_started [OF acc res, of e] show ?thesis
    proof (elim disjE)
      assume "handleApproveUSDC e s = s"
      with h ap j show ?thesis by simp
    next
      assume "handleApproveUSDC e s = s\<lparr>depositValidationError := ''Please enter a valid amount''\<rparr>"
      with h ap j show ?thesis by simp
    next
      assume "usdcTx (handleApproveUSDC e s) = Pending"
      with h show ?thesis by simp
    qed
  next
    case False
    then have "handle e ev s = s \<or> handle e ev s = handleConfirmDeposit e (closureOf s) s"
      using ClickInitiateDeposit by (auto simp: handleInitiateDeposit_def)
    then show ?thesis
      using ap j hcd_step [of e "closureOf s" s] by (auto simp: hcd_usdcTx)
  qed
next
  case ClickConfirm
  then show ?thesis using ap j hcd_step [of e "closureOf s" s] by (auto simp: hcd_usdcTx)
next
  case (UsdcReceipt ok)
  then show ?thesis using en by (auto simp: settle_def isTxLoading_def split: tx_state.splits)
next
  case (OracleReplied i reply)
  then show ?thesis
    using ap j resume_step [of e "oracleRequests s ! i" reply "s\<lparr>oracleRequests := removeAt i (oracleRequests s)\<rparr>"]
    by (auto simp: resume_usdcTx)
next
  case (AllowanceReread i r)
  let ?s0 = "s\<lparr>allowanceRereads := removeAt i (allowanceRereads s), usdcAllowance := r\<rparr>"
  have "depositStep (allowanceRereadDone e (allowanceRereads s ! i) r ?s0) = Approving \<Longrightarrow>
      depositStep s = Approving"
    using hcd_step [of e "allowanceRereads s ! i" ?s0]
    by (auto simp: allowanceRereadDone_def split: option.splits if_splits)
  then show ?thesis using AllowanceReread ap j by (simp add: reread_fields)
next
  case ClickWithdraw
  then show ?thesis using ap j by (simp add: withdraw_keeps)
qed (use ap j in \<open>auto simp: handleDeposit_def handleWithdrawClick_def handleCancel_def handleRetry_def\<close>)

lemma commit_approving: "depositStep (commit e s) = Approving \<Longrightarrow> depositStep s = Approving"
  unfolding commit_def using effects_approving [of e "effects e s"] effects_approving [of e s] by blast

lemma step_approving_tx:
  assumes "depositStep s = Approving \<longrightarrow> usdcTx s \<noteq> Idle"
    and "address s = Some a" "accountChainId s = Some cid"
    and "getContractAddress cid = Inr vault" "getUSDCAddress cid = Inr usdc"
  shows "depositStep (step e ev s) = Approving \<longrightarrow> usdcTx (step e ev s) \<noteq> Idle"
proof (cases "enabled e s ev")
  case False
  then show ?thesis using assms(1) by (simp add: step_def)
next
  case True
  show ?thesis
  proof
    assume "depositStep (step e ev s) = Approving"
    then have "depositStep (handle e ev s) = Approving"
      using True commit_approving [of e "handle e ev s"] by (simp add: step_def)
    then have "usdcTx (handle e ev s) \<noteq> Idle"
      using handle_approving_tx [OF assms(1) True assms(2-5)] by blast
    then show "usdcTx (step e ev s) \<noteq> Idle" using True by (simp add: step_def commit_keeps)
  qed
qed

lemma step_quiescent: "quiescent e s \<Longrightarrow> quiescent e (step e ev s)"
  using effects_quiescent [of e "handle e ev s"] by (simp add: step_def commit_def)

lemma initial_quiescent: "quiescent e (initial a cid al)"
  by (simp add: quiescent_def initial_def idle_neutral)

lemma run_snoc: "run e (evs @ [ev]) s = step e ev (run e evs s)"
  by (simp add: run_def)

lemma run_invariant:
  assumes "getContractAddress cid = Inr vault" "getUSDCAddress cid = Inr usdc"
  shows "quiescent e (run e evs (initial a cid al))
         \<and> address (run e evs (initial a cid al)) = Some a
         \<and> accountChainId (run e evs (initial a cid al)) = Some cid
         \<and> (depositStep (run e evs (initial a cid al)) = Approving \<longrightarrow>
              usdcTx (run e evs (initial a cid al)) \<noteq> Idle)"
proof (induction evs rule: rev_induct)
  case Nil
  show ?case by (simp add: run_def initial_quiescent) (simp add: initial_def)
next
  case (snoc ev evs)
  let ?s = "run e evs (initial a cid al)"
  from snoc have q: "quiescent e ?s" and ac: "address ?s = Some a" "accountChainId ?s = Some cid"
    and j: "depositStep ?s = Approving \<longrightarrow> usdcTx ?s \<noteq> Idle"
    by simp_all
  show ?case
    using step_quiescent [OF q, of ev] step_account [of e ev ?s] ac
      step_approving_tx [OF j ac assms, of e ev]
    by (simp add: run_snoc)
qed

lemma hcd_asked:
  "oracleRequests (handleConfirmDeposit e c t) \<noteq> oracleRequests t \<Longrightarrow>
   depositStep (handleConfirmDeposit e c t) = Depositing"
  by (auto simp: handleConfirmDeposit_def resetErrors_def depositSetupFailed_def Let_def
      split: option.splits sum.splits if_splits)

text \<open>A closure with which \<open>handleConfirmDeposit\<close> asks nothing.\<close>

lemma hcd_inert:
  assumes "handleConfirmDeposit e c s = s" "depositStep s = Approving"
  shows "oracleRequests (handleConfirmDeposit e c t) = oracleRequests t"
  using hcd_trichotomy [of e c]
proof (elim disjE)
  assume "\<forall>t. (depositStep (handleConfirmDeposit e c t) = Depositing
             \<or> depositStep (handleConfirmDeposit e c t) = DepositError)
            \<and> vaultTx (handleConfirmDeposit e c t) = Idle"
  then have "depositStep (handleConfirmDeposit e c s) = Depositing
      \<or> depositStep (handleConfirmDeposit e c s) = DepositError" by blast
  with assms show ?thesis by simp
qed simp_all

lemma effects_inert:
  assumes "\<And>x. oracleRequests (handleConfirmDeposit e (closureOf t) x) = oracleRequests x"
  shows "oracleRequests (effects e t) = oracleRequests t"
  using assms by (simp add: effects_oracle approvalSucceeded_def)

lemma commit_inert:
  assumes "\<And>x. oracleRequests (handleConfirmDeposit e (closureOf t) x) = oracleRequests x"
  shows "oracleRequests (commit e t) = oracleRequests t"
proof -
  have 1: "oracleRequests (effects e t) = oracleRequests t" using assms by (rule effects_inert)
  have "oracleRequests (effects e (effects e t)) = oracleRequests (effects e t)"
    by (rule effects_inert) (simp add: effects_closure assms)
  with 1 show ?thesis by (simp add: commit_def)
qed

lemma commit_requests:
  "oracleRequests (commit e t) = oracleRequests t
   \<or> (\<exists>req. oracleRequests (commit e t) = oracleRequests t @ [req])"
proof (cases "\<forall>x. oracleRequests (handleConfirmDeposit e (closureOf t) x) = oracleRequests x")
  case True
  then show ?thesis using commit_inert [of e t] by blast
next
  case False
  then have third: "\<forall>x. (depositStep (handleConfirmDeposit e (closureOf t) x) = Depositing
             \<or> depositStep (handleConfirmDeposit e (closureOf t) x) = DepositError)
            \<and> vaultTx (handleConfirmDeposit e (closureOf t) x) = Idle"
    using hcd_trichotomy [of e "closureOf t"] by auto
  have one: "oracleRequests (effects e t) = oracleRequests t
      \<or> (\<exists>req. oracleRequests (effects e t) = oracleRequests t @ [req])"
    using hcd_oracle [of e "closureOf t" t] by (auto simp: effects_oracle approvalSucceeded_def)
  show ?thesis
  proof (cases "depositStep t = Approving \<and> isTxSuccess (usdcTx t)")
    case False
    then show ?thesis using commit_oracle [of e t] by blast
  next
    case True
    then have "depositStep (effects e t) = depositStep (handleConfirmDeposit e (closureOf t) t)"
      by (simp add: effects_step_approving tx_exclusive)
    with third [rule_format, of t] have "depositStep (effects e t) \<noteq> Approving" by auto
    then have "oracleRequests (effects e (effects e t)) = oracleRequests (effects e t)"
      by (simp add: effects_other_keeps)
    with one show ?thesis by (simp add: commit_def)
  qed
qed

lemma tx_cases:
  "t = Idle \<or> isPending t \<or> isTxLoading t \<or> isTxSuccess t \<or> isTxError t \<or> writeError t \<noteq> None"
  by (cases t) (auto simp: isPending_def isTxLoading_def isTxSuccess_def isTxError_def writeError_def
      split: receipt.splits)

lemma handle_requests:
  assumes q: "quiescent e s" and j: "depositStep s = Approving \<longrightarrow> usdcTx s \<noteq> Idle"
    and en: "enabled e s ev"
  shows "oracleRequests (handle e ev s) = oracleRequests s
     \<or> (\<exists>i reply. ev = OracleReplied i reply \<and> oracleRequests (handle e ev s) = removeAt i (oracleRequests s))
     \<or> (\<exists>req. oracleRequests (handle e ev s) = oracleRequests s @ [req] \<and>
          depositStep (handle e ev s) \<noteq> Approving \<and>
          ((ev = ClickInitiateDeposit \<and> hasEnoughAllowance e s (depositAmount s))
           \<or> (\<exists>i n. ev = AllowanceReread i (Some n) \<and> 0 < n)))"
proof (cases ev)
  case ClickInitiateDeposit
  have d: "depositStep s \<noteq> Approving" using en ClickInitiateDeposit by simp
  show ?thesis
  proof (cases "depositAmount s \<noteq> [] \<and> hasEnoughAllowance e s (depositAmount s)")
    case True
    then have "handle e ev s = handleConfirmDeposit e (closureOf s) s"
      using ClickInitiateDeposit by (simp add: handleInitiateDeposit_def)
    then show ?thesis
      using hcd_oracle [of e "closureOf s" s] hcd_asked [of e "closureOf s" s] True ClickInitiateDeposit
      by auto
  next
    case False
    then show ?thesis using ClickInitiateDeposit
      by (auto simp: handleInitiateDeposit_def approve_fields)
  qed
next
  case ClickConfirm
  then have a: "depositStep s = Approving" "\<not> isPending (usdcTx s)" "\<not> isTxLoading (usdcTx s)"
    using en by simp_all
  then have "isTxSuccess (usdcTx s)"
    using q j tx_cases [of "usdcTx s"] by (auto simp: quiescent_def)
  then have "handleConfirmDeposit e (closureOf s) s = s" using q a by (simp add: quiescent_def)
  then show ?thesis using ClickConfirm by simp
next
  case (OracleReplied i reply)
  then show ?thesis by (simp add: resume_fields)
next
  case (AllowanceReread i r)
  let ?s0 = "s\<lparr>allowanceRereads := removeAt i (allowanceRereads s), usdcAllowance := r\<rparr>"
  show ?thesis
  proof (cases "\<exists>n. r = Some n \<and> 0 < n")
    case True
    then obtain n where n: "r = Some n" "0 < n" by blast
    then have h: "handle e ev s = handleConfirmDeposit e (allowanceRereads s ! i) ?s0"
      using AllowanceReread by (simp add: allowanceRereadDone_def)
    have "oracleRequests (handle e ev s) = oracleRequests s
        \<or> (\<exists>req. oracleRequests (handle e ev s) = oracleRequests s @ [req]
              \<and> depositStep (handle e ev s) \<noteq> Approving)"
      using hcd_oracle [of e "allowanceRereads s ! i" ?s0] hcd_asked [of e "allowanceRereads s ! i" ?s0]
      by (auto simp: h)
    then show ?thesis using AllowanceReread n by auto
  next
    case False
    then have "oracleRequests (handle e ev s) = oracleRequests s"
      using AllowanceReread by (cases r) (auto simp: allowanceRereadDone_def)
    then show ?thesis by simp
  qed
next
  case ClickWithdraw
  then show ?thesis by (simp add: withdraw_fields)
qed (auto simp: handleDeposit_def handleWithdrawClick_def handleCancel_def handleRetry_def)

lemma handle_closure:
  assumes "depositStep s = Approving" "depositStep (handle e ev s) = Approving" "enabled e s ev"
  shows "closureOf (handle e ev s) = closureOf s"
proof -
  have "address (handle e ev s) = address s" "accountChainId (handle e ev s) = accountChainId s"
    using handle_account [of e ev s] by simp_all
  moreover have "depositAmount (handle e ev s) = depositAmount s"
    using assms
    by (cases ev) (auto simp: hcd_account resume_fields withdraw_fields reread_fields
        handleDeposit_def handleWithdrawClick_def handleCancel_def handleRetry_def)
  ultimately show ?thesis by (simp add: closureOf_def)
qed

lemma handle_success:
  assumes "enabled e s ev" "isTxSuccess (usdcTx (handle e ev s))" "depositStep (handle e ev s) = Approving"
  shows "(ev = UsdcReceipt True \<and> depositStep s = Approving \<and> isTxLoading (usdcTx s))
         \<or> (depositStep s = Approving \<and> isTxSuccess (usdcTx s))"
proof (cases ev)
  case ClickInitiateDeposit
  have "usdcTx (handleApproveUSDC e s) = usdcTx s \<and> depositStep (handleApproveUSDC e s) = depositStep s
      \<or> \<not> isTxSuccess (usdcTx (handleApproveUSDC e s))"
    by (auto simp: handleApproveUSDC_def resetErrors_def writeUSDC_def Let_def isTxSuccess_def
        split: option.splits sum.splits)
  then show ?thesis
    using assms ClickInitiateDeposit hcd_step [of e "closureOf s" s]
    by (auto simp: handleInitiateDeposit_def hcd_usdcTx split: if_splits)
next
  case ClickConfirm
  then show ?thesis using assms hcd_step [of e "closureOf s" s] by (auto simp: hcd_usdcTx)
next
  case (UsdcReceipt ok)
  then show ?thesis using assms
    by (cases ok) (auto simp: settle_def isTxLoading_def isTxSuccess_def split: tx_state.splits)
next
  case (UsdcWriteSubmitted h)
  then show ?thesis using assms by (simp add: isTxSuccess_def)
next
  case (UsdcWriteFailed m)
  then show ?thesis using assms by (simp add: isTxSuccess_def)
next
  case (OracleReplied i reply)
  then show ?thesis
    using assms resume_step [of e "oracleRequests s ! i" reply "s\<lparr>oracleRequests := removeAt i (oracleRequests s)\<rparr>"]
    by (auto simp: resume_usdcTx)
next
  case (AllowanceReread i r)
  let ?s0 = "s\<lparr>allowanceRereads := removeAt i (allowanceRereads s), usdcAllowance := r\<rparr>"
  have "depositStep (allowanceRereadDone e (allowanceRereads s ! i) r ?s0) = Approving \<Longrightarrow>
      depositStep s = Approving"
    using hcd_step [of e "allowanceRereads s ! i" ?s0]
    by (auto simp: allowanceRereadDone_def split: option.splits if_splits)
  then show ?thesis using AllowanceReread assms by (simp add: reread_fields)
next
  case ClickWithdraw
  then show ?thesis using assms by (simp add: withdraw_keeps)
qed (use assms in \<open>auto simp: handleDeposit_def handleWithdrawClick_def handleCancel_def handleRetry_def
    split: if_splits\<close>)

lemma step_requests:
  assumes q: "quiescent e s" and j: "depositStep s = Approving \<longrightarrow> usdcTx s \<noteq> Idle"
  shows "oracleRequests (step e ev s) = oracleRequests s
     \<or> (\<exists>i reply. ev = OracleReplied i reply \<and> i < length (oracleRequests s)
           \<and> oracleRequests (step e ev s) = removeAt i (oracleRequests s))
     \<or> (\<exists>req. oracleRequests (step e ev s) = oracleRequests s @ [req] \<and>
          ((ev = ClickInitiateDeposit \<and> hasEnoughAllowance e s (depositAmount s))
           \<or> (ev = UsdcReceipt True \<and> depositStep s = Approving \<and> isTxLoading (usdcTx s))
           \<or> (\<exists>i n. ev = AllowanceReread i (Some n) \<and> 0 < n \<and> i < length (allowanceRereads s))))"
proof (cases "enabled e s ev")
  case False
  then show ?thesis by (simp add: step_def)
next
  case True
  let ?t = "handle e ev s"
  have st: "step e ev s = commit e ?t" using True by (simp add: step_def)
  have en: "\<And>i r. ev = AllowanceReread i r \<Longrightarrow> i < length (allowanceRereads s)"
    "\<And>i r. ev = OracleReplied i r \<Longrightarrow> i < length (oracleRequests s)"
    using True by auto
  show ?thesis
  proof (cases "depositStep ?t = Approving \<and> isTxSuccess (usdcTx ?t)")
    case False
    then have c: "oracleRequests (commit e ?t) = oracleRequests ?t"
      using commit_oracle [of e ?t] by blast
    show ?thesis using handle_requests [OF q j True] en unfolding st c by auto
  next
    case A: True
    then have h: "oracleRequests ?t = oracleRequests s
        \<or> (\<exists>i reply. ev = OracleReplied i reply \<and> oracleRequests ?t = removeAt i (oracleRequests s))"
      using handle_requests [OF q j True] by auto
    from handle_success [OF True] A
    have "(ev = UsdcReceipt True \<and> depositStep s = Approving \<and> isTxLoading (usdcTx s))
         \<or> (depositStep s = Approving \<and> isTxSuccess (usdcTx s))" by blast
    then show ?thesis
    proof
      assume r: "ev = UsdcReceipt True \<and> depositStep s = Approving \<and> isTxLoading (usdcTx s)"
      then have "oracleRequests ?t = oracleRequests s" by simp
      then show ?thesis using commit_requests [of e ?t] r unfolding st by auto
    next
      assume b: "depositStep s = Approving \<and> isTxSuccess (usdcTx s)"
      then have "handleConfirmDeposit e (closureOf s) s = s" using q by (simp add: quiescent_def)
      then have "\<And>x. oracleRequests (handleConfirmDeposit e (closureOf s) x) = oracleRequests x"
        using b hcd_inert by blast
      moreover have "closureOf ?t = closureOf s" using handle_closure [of s e ev] b A True by blast
      ultimately have "oracleRequests (commit e ?t) = oracleRequests ?t"
        using commit_inert [of e ?t] by simp
      then show ?thesis using h en unfolding st by auto
    qed
  qed
qed

subsubsection \<open>Where a deposit write is submitted\<close>

lemma approve_write:
  "submitted (handleApproveUSDC e s) = submitted s
   \<or> (\<exists>w. submitted (handleApproveUSDC e s) = submitted s @ [w] \<and> \<not> isDepositWrite w)"
  by (simp add: handleApproveUSDC_def resetErrors_def writeUSDC_def isDepositWrite_def Let_def
      split: option.splits sum.splits)

lemma withdraw_write:
  "submitted (handleWithdraw e s) = submitted s
   \<or> (\<exists>w. submitted (handleWithdraw e s) = submitted s @ [w] \<and> \<not> isDepositWrite w)"
  by (simp add: handleWithdraw_def writeVault_def isDepositWrite_def Let_def
      split: option.splits sum.splits)

lemma resume_write:
  "submitted (confirmDepositResume e req reply s) = submitted s
   \<or> (\<exists>w. submitted (confirmDepositResume e req reply s) = submitted s @ [w])"
  by (simp add: confirmDepositResume_def depositSetupFailed_def writeVault_def split: sum.splits)

lemma handle_write:
  assumes "enabled e s ev"
  shows "submitted (handle e ev s) = submitted s
   \<or> (\<exists>w. submitted (handle e ev s) = submitted s @ [w] \<and>
         (isDepositWrite w \<longrightarrow> (\<exists>i reply. ev = OracleReplied i reply \<and> i < length (oracleRequests s))))"
proof (cases ev)
  case ClickInitiateDeposit
  then show ?thesis using approve_write [of e s]
    by (auto simp: handleInitiateDeposit_def hcd_submitted)
next
  case ClickWithdraw
  then show ?thesis using withdraw_write [of e s] by auto
next
  case (OracleReplied i reply)
  then show ?thesis
    using assms resume_write [of e "oracleRequests s ! i" reply "s\<lparr>oracleRequests := removeAt i (oracleRequests s)\<rparr>"]
    by auto
qed (auto simp: hcd_submitted reread_submitted handleDeposit_def handleWithdrawClick_def
    handleCancel_def handleRetry_def)

lemma step_write:
  "submitted (step e ev s) = submitted s
   \<or> (\<exists>w. submitted (step e ev s) = submitted s @ [w] \<and>
         (isDepositWrite w \<longrightarrow> (\<exists>i reply. ev = OracleReplied i reply \<and> i < length (oracleRequests s))))"
  using handle_write [of e s ev] by (simp add: step_def commit_keeps)

subsubsection \<open>Chains with and without a vault\<close>

lemma vault_usdc: "getContractAddress cid = Inr vault \<Longrightarrow> \<exists>usdc. getUSDCAddress cid = Inr usdc"
  by (auto simp: getContractAddress_def getUSDCAddress_def split: if_splits)

lemma step_onChain: "onChain cid s \<Longrightarrow> onChain cid (step e ev s)"
  by (simp add: step_def commit_onChain handle_onChain)

lemma run_onChain: "onChain cid (run e evs (initial a cid al))"
proof (induction evs rule: rev_induct)
  case Nil
  show ?case by (simp add: run_def initial_onChain)
next
  case (snoc ev evs)
  then show ?case by (simp add: run_snoc step_onChain)
qed

lemma novault_resume:
  assumes "getContractAddress cid = Inl x"
  shows "submitted (confirmDepositResume e (w, a, cid) reply s) = submitted s"
proof (cases reply)
  case (Inl err) then show ?thesis by (simp add: resume_failure setupFailed_simps)
next
  case (Inr snapshot)
  have "\<exists>err. depositRequest e (w, a, cid) snapshot = Inl err"
    using assms by (simp add: depositRequest_def split: sum.splits bool.splits)
  then obtain err where "depositRequest e (w, a, cid) snapshot = Inl err" by blast
  with Inr show ?thesis by (simp add: resume_request setupFailed_simps)
qed

lemma novault_step:
  assumes "getContractAddress cid = Inl x" "onChain cid s"
  shows "submitted (step e ev s) = submitted s
         \<or> (\<exists>w. submitted (step e ev s) = submitted s @ [w] \<and> \<not> isDepositWrite w)"
proof (cases "\<exists>i reply. ev = OracleReplied i reply \<and> i < length (oracleRequests s)")
  case False
  then show ?thesis using step_write [of e ev s] by blast
next
  case True
  then obtain i reply where ev: "ev = OracleReplied i reply" "i < length (oracleRequests s)" by blast
  then have "snd (snd (oracleRequests s ! i)) = cid"
    using assms(2) list_all_nth [of "\<lambda>r. snd (snd r) = cid" "oracleRequests s" i]
    by (simp add: onChain_def)
  then obtain w a where "oracleRequests s ! i = (w, a, cid)" by (metis prod.collapse)
  then show ?thesis using ev assms(1) by (simp add: step_def commit_keeps novault_resume)
qed

lemma novault_run:
  assumes "getContractAddress cid = Inl x"
  shows "list_all (\<lambda>w. \<not> isDepositWrite w) (submitted (run e evs (initial a cid al)))"
proof (induction evs rule: rev_induct)
  case Nil
  show ?case by (simp add: run_def initial_def)
next
  case (snoc ev evs)
  then show ?case
    using novault_step [OF assms run_onChain, of e ev e evs a al] by (auto simp: run_snoc)
qed

text \<open>
  Claim C2, as amended. While the deposit step is approving and the approval awaits the
  wallet or its receipt, the only events after which the step is depositing, or a further
  request to the oracle is outstanding, are the receipt reporting on-chain success and the
  continuation of an allowance re-read (started after a wallet-simulation error of an
  approval) that finds a positive allowance; the Confirm button is disabled in that
  situation, and a write is submitted in the approving step only by the answer of the
  oracle to a request made earlier (or by a withdrawal from the withdraw view).

  In every state, a step submits at most one write, and a deposit write only as the answer
  to an outstanding request to the oracle. In every state \<open>r\<close> that a run of the component
  reaches on a chain whose vault address resolves, a step leaves the outstanding requests
  as they are, or takes away the one that is answered, or adds one; it adds one only at the
  click on Deposit with an allowance that covers the amount (no approval is required), at
  the receipt of the approval reporting on-chain success in the approving step, or at the
  continuation of an allowance re-read that finds a positive allowance. On a chain whose
  vault address does not resolve no run submits a deposit write.
\<close>

theorem deposit_follows_confirmed_approval:
  "(depositStep s = Approving \<and> (isPending (usdcTx s) \<or> isTxLoading (usdcTx s)) \<and>
      (depositStep (step e ev s) = Depositing
       \<or> length (oracleRequests s) < length (oracleRequests (step e ev s))) \<longrightarrow>
      ev = UsdcReceipt True \<or> (\<exists>i n. ev = AllowanceReread i (Some n) \<and> 0 < n))
   \<and> (isPending (usdcTx s) \<or> isTxLoading (usdcTx s) \<longrightarrow> \<not> enabled e s ClickConfirm)
   \<and> (depositStep s = Approving \<and> submitted (step e ev s) \<noteq> submitted s \<longrightarrow>
        (ev = ClickWithdraw \<and> currentState s = WithdrawView) \<or> (\<exists>i reply. ev = OracleReplied i reply))
   \<and> (submitted (step e ev s) = submitted s
       \<or> (\<exists>w. submitted (step e ev s) = submitted s @ [w] \<and>
             (isDepositWrite w \<longrightarrow>
                (\<exists>i reply. ev = OracleReplied i reply \<and> i < length (oracleRequests s)))))
   \<and> (getContractAddress cid = Inr vault \<and> r = run e evs (initial a cid al) \<longrightarrow>
         oracleRequests (step e ev r) = oracleRequests r
         \<or> (\<exists>i reply. ev = OracleReplied i reply \<and> i < length (oracleRequests r)
               \<and> oracleRequests (step e ev r) = removeAt i (oracleRequests r))
         \<or> (\<exists>req. oracleRequests (step e ev r) = oracleRequests r @ [req] \<and>
               ((ev = ClickInitiateDeposit \<and> hasEnoughAllowance e r (depositAmount r))
                \<or> (ev = UsdcReceipt True \<and> depositStep r = Approving \<and> isTxLoading (usdcTx r))
                \<or> (\<exists>i n. ev = AllowanceReread i (Some n) \<and> 0 < n
                      \<and> i < length (allowanceRereads r)))))
   \<and> (getContractAddress cid = Inl err \<longrightarrow>
        list_all (\<lambda>w. \<not> isDepositWrite w) (submitted (run e evs (initial a cid al))))"
proof -
  have 1: "depositStep s = Approving \<and> (isPending (usdcTx s) \<or> isTxLoading (usdcTx s)) \<and>
      (depositStep (step e ev s) = Depositing
       \<or> length (oracleRequests s) < length (oracleRequests (step e ev s))) \<longrightarrow>
      ev = UsdcReceipt True \<or> (\<exists>i n. ev = AllowanceReread i (Some n) \<and> 0 < n)"
    using approving_step [of s e ev] by blast
  have 2: "isPending (usdcTx s) \<or> isTxLoading (usdcTx s) \<longrightarrow> \<not> enabled e s ClickConfirm"
    using confirm_disabled [of s e] by blast
  have 3: "depositStep s = Approving \<and> submitted (step e ev s) \<noteq> submitted s \<longrightarrow>
        (ev = ClickWithdraw \<and> currentState s = WithdrawView) \<or> (\<exists>i reply. ev = OracleReplied i reply)"
    using step_submitted [of e ev s] by auto
  have 5: "getContractAddress cid = Inr vault \<and> r = run e evs (initial a cid al) \<longrightarrow>
         oracleRequests (step e ev r) = oracleRequests r
         \<or> (\<exists>i reply. ev = OracleReplied i reply \<and> i < length (oracleRequests r)
               \<and> oracleRequests (step e ev r) = removeAt i (oracleRequests r))
         \<or> (\<exists>req. oracleRequests (step e ev r) = oracleRequests r @ [req] \<and>
               ((ev = ClickInitiateDeposit \<and> hasEnoughAllowance e r (depositAmount r))
                \<or> (ev = UsdcReceipt True \<and> depositStep r = Approving \<and> isTxLoading (usdcTx r))
                \<or> (\<exists>i n. ev = AllowanceReread i (Some n) \<and> 0 < n
                      \<and> i < length (allowanceRereads r))))"
  proof (intro impI, elim conjE)
    assume res: "getContractAddress cid = Inr vault" and r: "r = run e evs (initial a cid al)"
    obtain usdc where "getUSDCAddress cid = Inr usdc" using vault_usdc [OF res] by blast
    with res have "quiescent e r" "depositStep r = Approving \<longrightarrow> usdcTx r \<noteq> Idle"
      using run_invariant [of cid vault usdc e evs a al] r by simp_all
    then show "oracleRequests (step e ev r) = oracleRequests r
         \<or> (\<exists>i reply. ev = OracleReplied i reply \<and> i < length (oracleRequests r)
               \<and> oracleRequests (step e ev r) = removeAt i (oracleRequests r))
         \<or> (\<exists>req. oracleRequests (step e ev r) = oracleRequests r @ [req] \<and>
               ((ev = ClickInitiateDeposit \<and> hasEnoughAllowance e r (depositAmount r))
                \<or> (ev = UsdcReceipt True \<and> depositStep r = Approving \<and> isTxLoading (usdcTx r))
                \<or> (\<exists>i n. ev = AllowanceReread i (Some n) \<and> 0 < n
                      \<and> i < length (allowanceRereads r))))"
      by (rule step_requests)
  qed
  have 6: "getContractAddress cid = Inl err \<longrightarrow>
      list_all (\<lambda>w. \<not> isDepositWrite w) (submitted (run e evs (initial a cid al)))"
    using novault_run [of cid err e evs a al] by blast
  from 1 2 3 step_write [of e ev s] 5 6 show ?thesis by (intro conjI)
qed

text \<open>
  The amended statement of C2 used while the receipt of a submitted approval is loading,
  and in the error step that a failed approval leaves with the re-read outstanding.
\<close>

theorem deposit_follows_confirmed_approval_witness:
  "depositStep (run digitsEnv (take 4 oracleDownRun) (initial user 421614 None)) = Approving
   \<and> isTxLoading (usdcTx (run digitsEnv (take 4 oracleDownRun) (initial user 421614 None)))
   \<and> depositStep (step digitsEnv (UsdcReceipt True)
        (run digitsEnv (take 4 oracleDownRun) (initial user 421614 None))) = Depositing
   \<and> depositStep (step digitsEnv (VaultReceipt True)
        (run digitsEnv (take 4 oracleDownRun) (initial user 421614 None))) \<noteq> Depositing
   \<and> \<not> enabled digitsEnv (run digitsEnv (take 4 oracleDownRun) (initial user 421614 None)) ClickConfirm
   \<and> getContractAddress 421614 = Inr ''0xE168d95f8d1B8EC167A63c8E696076EC8EE95337''
   \<and> depositStep (run digitsEnv (take 4 (recoveryRun None)) (initial user 421614 None)) = DepositError
   \<and> length (allowanceRereads (run digitsEnv (take 4 (recoveryRun None)) (initial user 421614 None))) = 1
   \<and> oracleRequests (step digitsEnv (AllowanceReread 0 (Some 0))
        (run digitsEnv (take 4 (recoveryRun None)) (initial user 421614 None))) = []
   \<and> oracleRequests (step digitsEnv ClickRetry
        (run digitsEnv (take 4 (recoveryRun None)) (initial user 421614 None))) = []
   \<and> submitted (step digitsEnv (OracleReplied 0 (Inr plainSnapshot))
        (run digitsEnv (take 3 (answeredRun plainSnapshot)) (initial user 421614 (Some 20000000))))
       = [\<lparr>target = ''0xE168d95f8d1B8EC167A63c8E696076EC8EE95337'', call = deposit 10000000 user,
           gas = 350000\<rparr>]
   \<and> isDepositWrite \<lparr>target = ''0xE168d95f8d1B8EC167A63c8E696076EC8EE95337'',
                        call = deposit 10000000 user, gas = 350000\<rparr>
   \<and> 0 < length (oracleRequests
        (run digitsEnv (take 3 (answeredRun plainSnapshot)) (initial user 421614 (Some 20000000))))
   \<and> getContractAddress 11155420 =
       Inl (JsError ''AAVE Vault not yet deployed on Optimism Sepolia. Coming soon!'')
   \<and> list_all (\<lambda>w. \<not> isDepositWrite w)
        (submitted (run digitsEnv (answeredRun plainSnapshot) (initial user 11155420 (Some 20000000))))"
proof -
  let ?s = "run digitsEnv (take 4 oracleDownRun) (initial user 421614 None)"
  let ?r = "run digitsEnv (take 4 (recoveryRun None)) (initial user 421614 None)"
  have h: "depositStep ?s = Approving" "isTxLoading (usdcTx ?s)"
    "depositStep (step digitsEnv (UsdcReceipt True) ?s) = Depositing"
    by code_simp+
  have g: "getContractAddress 421614 = Inr ''0xE168d95f8d1B8EC167A63c8E696076EC8EE95337''"
    by code_simp
  have o: "getContractAddress 11155420 =
      Inl (JsError ''AAVE Vault not yet deployed on Optimism Sepolia. Coming soon!'')"
    by code_simp
  have k: "depositStep ?r = DepositError" "length (allowanceRereads ?r) = 1" "oracleRequests ?r = []"
    by code_simp+
  have "VaultReceipt True \<noteq> UsdcReceipt True"
    "\<not> (\<exists>i n. VaultReceipt True = AllowanceReread i (Some n) \<and> 0 < n)" by simp_all
  then have 1: "depositStep (step digitsEnv (VaultReceipt True) ?s) \<noteq> Depositing"
    using h deposit_follows_confirmed_approval [where s = ?s and e = digitsEnv
        and ev = "VaultReceipt True"]
    by blast
  have 2: "\<not> enabled digitsEnv ?s ClickConfirm"
    using h deposit_follows_confirmed_approval [where s = ?s and e = digitsEnv] by blast
  have 3: "oracleRequests (step digitsEnv (AllowanceReread 0 (Some 0)) ?r) = oracleRequests ?r"
    using g deposit_follows_confirmed_approval [where r = ?r and e = digitsEnv
        and ev = "AllowanceReread 0 (Some 0)" and cid = 421614 and a = user and al = None
        and evs = "take 4 (recoveryRun None)"
        and vault = "''0xE168d95f8d1B8EC167A63c8E696076EC8EE95337''"]
    by auto
  have 4: "oracleRequests (step digitsEnv ClickRetry ?r) = oracleRequests ?r"
    using g deposit_follows_confirmed_approval [where r = ?r and e = digitsEnv
        and ev = ClickRetry and cid = 421614 and a = user and al = None
        and evs = "take 4 (recoveryRun None)"
        and vault = "''0xE168d95f8d1B8EC167A63c8E696076EC8EE95337''"]
    by auto
  let ?a = "run digitsEnv (take 3 (answeredRun plainSnapshot)) (initial user 421614 (Some 20000000))"
  let ?w = "\<lparr>target = ''0xE168d95f8d1B8EC167A63c8E696076EC8EE95337'', call = deposit 10000000 user,
             gas = 350000\<rparr>"
  have w: "submitted ?a = []" "submitted (step digitsEnv (OracleReplied 0 (Inr plainSnapshot)) ?a) = [?w]"
    "isDepositWrite ?w"
    by code_simp+
  have 5: "0 < length (oracleRequests ?a)"
    using w deposit_follows_confirmed_approval [where s = ?a and e = digitsEnv
        and ev = "OracleReplied 0 (Inr plainSnapshot)"]
    by auto
  have 6: "list_all (\<lambda>w. \<not> isDepositWrite w)
      (submitted (run digitsEnv (answeredRun plainSnapshot) (initial user 11155420 (Some 20000000))))"
    using o deposit_follows_confirmed_approval [where e = digitsEnv and cid = 11155420
        and evs = "answeredRun plainSnapshot" and a = user and al = "Some 20000000"
        and err = "JsError ''AAVE Vault not yet deployed on Optimism Sepolia. Coming soon!''"]
    by blast
  show ?thesis using h g o k w 1 2 3 4 5 6 by simp
qed

text \<open>
  An approval is required, the wallet reports a simulation error although the approval
  took effect, the re-read finds the unlimited allowance, and the deposit write is
  submitted: at no point of the run does the approval receipt report success.
\<close>

theorem deposit_without_confirmed_approval_counterexample:
  "\<not> hasEnoughAllowance digitsEnv
       (run digitsEnv (take 2 (recoveryRun (Some maxAmount))) (initial user 421614 None)) ''10''
   \<and> list_all (\<lambda>k. \<not> isTxSuccess (usdcTx (run digitsEnv (take k (recoveryRun (Some maxAmount)))
                       (initial user 421614 None))))
        [0, 1, 2, 3, 4, 5, 6]
   \<and> submitted (initial user 421614 None) = []
   \<and> map call (submitted (run digitsEnv (recoveryRun (Some maxAmount)) (initial user 421614 None))) =
       [approve ''0xE168d95f8d1B8EC167A63c8E696076EC8EE95337'' maxAmount, deposit 10000000 user]"
  by code_simp

text \<open>
  The continuation of the re-read tests the allowance against 0, not against the amount:
  with an allowance of 5 units before and after the failed approval, the deposit of
  10 USDC is still started and its write submitted.
\<close>

lemma partial_allowance_starts_deposit:
  "usdcAllowance (run digitsEnv (recoveryRun (Some 5)) (initial user 421614 (Some 5))) = Some 5
   \<and> map call (submitted (run digitsEnv (recoveryRun (Some 5)) (initial user 421614 (Some 5)))) =
       [approve ''0xE168d95f8d1B8EC167A63c8E696076EC8EE95337'' maxAmount, deposit 10000000 user]"
  by code_simp

subsection \<open>Re-entry while depositing (C3)\<close>

lemma handle_quiet_depositing:
  assumes "depositStep s = Depositing" "enabled e s ev"
    "\<not> (\<exists>i n. ev = AllowanceReread i (Some n) \<and> 0 < n)"
  shows "depositStep (handle e ev s) \<noteq> Approving
         \<and> length (oracleRequests (handle e ev s)) \<le> length (oracleRequests s)"
proof (cases ev)
  case (OracleReplied i reply)
  then show ?thesis
    using assms
      resume_step [of e "oracleRequests s ! i" reply "s\<lparr>oracleRequests := removeAt i (oracleRequests s)\<rparr>"]
      length_removeAt [of i "oracleRequests s"]
    by (auto simp: optimism_resume_chain)
next
  case (AllowanceReread i r)
  then show ?thesis using assms
    by (cases r) (auto simp: allowanceRereadDone_def)
next
  case ClickWithdraw
  then show ?thesis using assms by (simp add: withdraw_keeps withdraw_chain)
qed (use assms in \<open>auto simp: handleDeposit_def handleWithdrawClick_def
    handleCancel_def handleRetry_def\<close>)

lemma depositing_step:
  assumes "depositStep s = Depositing"
    and "length (oracleRequests s) < length (oracleRequests (step e ev s))"
  shows "\<exists>i n. ev = AllowanceReread i (Some n) \<and> 0 < n"
proof (rule ccontr)
  assume n: "\<not> (\<exists>i n. ev = AllowanceReread i (Some n) \<and> 0 < n)"
  from assms(2) have en: "enabled e s ev" by (cases "enabled e s ev") (simp_all add: step_def)
  then have q: "depositStep (handle e ev s) \<noteq> Approving"
    "length (oracleRequests (handle e ev s)) \<le> length (oracleRequests s)"
    using handle_quiet_depositing [OF assms(1) en n] by simp_all
  then have "oracleRequests (commit e (handle e ev s)) = oracleRequests (handle e ev s)"
    using commit_oracle [of e "handle e ev s"] by blast
  with q en assms(2) show False by (simp add: step_def)
qed

lemma depositing_no_control:
  "depositStep s = Depositing \<Longrightarrow> currentState s = DepositView \<Longrightarrow> isUserAction ev \<Longrightarrow>
   \<not> enabled e s ev"
  by (cases ev) simp_all

lemma hcd_no_gate:
  assumes "c_address c = Some a" "a \<noteq> []" "c_chainId c = Some cid" "cid \<noteq> 0"
    "c_depositAmount c \<noteq> []" "isValidAmount e (c_depositAmount c)"
    "parseUnits e (c_depositAmount c) 6 = Inr w"
  shows "vaultTx (handleConfirmDeposit e c s) = Idle
         \<and> oracleRequests (handleConfirmDeposit e c s) = oracleRequests s @ [(w, a, cid)]"
  using hcd_valid [OF assms, of s] by simp

lemma withdraw_gated: "isPending (vaultTx s) \<Longrightarrow> handleWithdraw e s = s"
  by (simp add: handleWithdraw_def canWithdraw_def split: option.splits)

text \<open>
  Claim C3 does not hold of the code. The depositing view renders no enabled control
  (\<open>depositing_no_control\<close>), and \<open>handleWithdraw\<close> submits nothing while a vault write is
  pending (\<open>withdraw_gated\<close>), but \<open>handleConfirmDeposit\<close> has no such check
  (\<open>hcd_no_gate\<close>): it resets the write hook and asks the oracle whatever the hook holds.
  In the run below the first deposit write still waits in the wallet when the flow is
  started again through the deposit trigger; \<open>handleConfirmDeposit\<close> runs again and a
  second deposit write is submitted.
\<close>

theorem second_submission_counterexample:
  "isPending (vaultTx (run digitsEnv (take 6 restartedRun) (initial user 421614 (Some 20000000))))
   \<and> map call (submitted (run digitsEnv (take 6 restartedRun) (initial user 421614 (Some 20000000))))
       = [deposit 10000000 user]
   \<and> map call (submitted (run digitsEnv restartedRun (initial user 421614 (Some 20000000))))
       = [deposit 10000000 user, deposit 10000000 user]"
  by code_simp

subsection \<open>Recovery from a wallet-simulation error (C4)\<close>

lemma effects_message:
  assumes "depositStep s \<noteq> Approving" "depositStep s \<noteq> Depositing" "withdrawStep s \<noteq> Withdrawing"
  shows "errorMessage (effects e s) = errorMessage s"
proof -
  have 1: "errorMessage (vaultSucceeded s t) = errorMessage t" for t
    by (simp add: vaultSucceeded_def Let_def)
  have 2: "errorMessage (receiptFailed s t) = errorMessage t" for t
    using assms by (simp add: receiptFailed_def Let_def)
  have 3: "errorMessage (vaultWriteFailed s t) = errorMessage t" for t
    using assms by (simp add: vaultWriteFailed_def Let_def split: option.splits)
  have 4: "errorMessage (walletErrorEffect e s t) = errorMessage t" for t
    using assms by (simp add: walletErrorEffect_def Let_def split: option.splits)
  have "errorMessage (transactionEffect e s s) = errorMessage s"
    using assms by (simp add: transactionEffect_def Let_def approvalSucceeded_idle 1 2 3
        split: option.splits)
  then show ?thesis by (simp add: effects_def 4)
qed

lemma effects_withdrawing:
  "withdrawStep s \<noteq> Withdrawing \<Longrightarrow> withdrawStep (effects e s) \<noteq> Withdrawing"
proof -
  assume a: "withdrawStep s \<noteq> Withdrawing"
  have 1: "withdrawStep t \<noteq> Withdrawing \<Longrightarrow> withdrawStep (vaultSucceeded s t) \<noteq> Withdrawing" for t
    by (simp add: vaultSucceeded_def Let_def)
  have 2: "withdrawStep t \<noteq> Withdrawing \<Longrightarrow> withdrawStep (receiptFailed s t) \<noteq> Withdrawing" for t
    by (simp add: receiptFailed_def Let_def)
  have 3: "withdrawStep t \<noteq> Withdrawing \<Longrightarrow> withdrawStep (vaultWriteFailed s t) \<noteq> Withdrawing" for t
    by (simp add: vaultWriteFailed_def Let_def split: option.splits)
  have 4: "withdrawStep t \<noteq> Withdrawing \<Longrightarrow> withdrawStep (walletErrorEffect e s t) \<noteq> Withdrawing" for t
    by (simp add: walletErrorEffect_def Let_def split: option.splits)
  have 0: "withdrawStep (approvalSucceeded e s s) \<noteq> Withdrawing"
    using a by (simp add: approvalSucceeded_keeps)
  have "withdrawStep (transactionEffect e s s) \<noteq> Withdrawing"
    using 3 [OF 2 [OF 1 [OF 0]]] 2 [OF 1 [OF 0]]
    by (simp add: transactionEffect_def Let_def 3 split: option.splits)
  then show ?thesis by (simp add: effects_def 4)
qed

lemma commit_failed:
  assumes "depositStep s = DepositError" "\<not> isTxSuccess (vaultTx s)" "withdrawStep s \<noteq> Withdrawing"
  shows "depositStep (commit e s) = DepositError \<and> errorMessage (commit e s) = errorMessage s"
proof -
  have 1: "depositStep (effects e s) = DepositError" "errorMessage (effects e s) = errorMessage s"
    "withdrawStep (effects e s) \<noteq> Withdrawing"
    using assms by (simp_all add: effects_step_other effects_message effects_withdrawing)
  then have "errorMessage (effects e (effects e s)) = errorMessage s"
    by (simp add: effects_message)
  then show ?thesis using assms commit_error [of s e] by (simp add: commit_def)
qed

lemma simulation_reread_started:
  assumes "isPending (usdcTx s)" "depositStep s = Approving" "isMetaMaskSimulationError m"
    "\<not> isUserRejection m"
  shows "allowanceRereads (step e (UsdcWriteFailed m) s) = allowanceRereads s @ [closureOf s]"
proof -
  let ?s1 = "s\<lparr>usdcTx := WriteFailed m\<rparr>"
  have w: "writeError (usdcTx ?s1) = Some m" by (simp add: writeError_def)
  have c: "closureOf ?s1 = closureOf s" by (simp add: closureOf_def)
  have 1: "allowanceRereads (effects e ?s1) = allowanceRereads s @ [closureOf s]"
    using assms w c by (simp add: effects_rereads)
  have "depositStep (effects e ?s1) \<noteq> Approving"
    using assms(2) w by (simp add: effects_def walletErrorEffect_step)
  then have "allowanceRereads (effects e (effects e ?s1)) = allowanceRereads (effects e ?s1)"
    by (simp add: effects_other_keeps)
  with 1 show ?thesis using assms(1) by (simp add: step_def commit_def)
qed

lemma simulation_reread_sufficient:
  assumes "i < length (allowanceRereads s)" "c_address (allowanceRereads s ! i) = Some a" "a \<noteq> []"
    "c_chainId (allowanceRereads s ! i) = Some cid" "cid \<noteq> 0"
    "c_depositAmount (allowanceRereads s ! i) \<noteq> []"
    "isValidAmount e (c_depositAmount (allowanceRereads s ! i))"
    "parseUnits e (c_depositAmount (allowanceRereads s ! i)) 6 = Inr w" "0 < w" "w \<le> n"
  shows "depositStep (step e (AllowanceReread i (Some n)) s) = Depositing
         \<and> oracleRequests (step e (AllowanceReread i (Some n)) s) = oracleRequests s @ [(w, a, cid)]"
proof -
  let ?s0 = "s\<lparr>allowanceRereads := removeAt i (allowanceRereads s), usdcAllowance := Some n\<rparr>"
  let ?s1 = "handle e (AllowanceReread i (Some n)) s"
  have "?s1 = handleConfirmDeposit e (allowanceRereads s ! i) ?s0"
    using assms(9,10) by (simp add: allowanceRereadDone_def)
  then have s1: "?s1 = ?s0\<lparr>errorMessage := [], vaultTx := Idle, depositStep := Depositing,
      oracleRequests := oracleRequests ?s0 @ [(w, a, cid)]\<rparr>"
    using hcd_valid [OF assms(2-8), of ?s0] by simp
  then have f: "depositStep ?s1 = Depositing" "vaultTx ?s1 = Idle"
    "oracleRequests ?s1 = oracleRequests s @ [(w, a, cid)]"
    by simp_all
  have "oracleRequests (commit e ?s1) = oracleRequests ?s1"
    using commit_oracle [of e ?s1] f(1) by auto
  then show ?thesis
    using assms(1) f commit_depositing_idle [of ?s1 e] by (simp add: step_def)
qed

lemma simulation_reread_unchanged:
  assumes "i < length (allowanceRereads s)" "r = None \<or> r = Some 0"
    "\<not> isTxSuccess (vaultTx s)" "withdrawStep s \<noteq> Withdrawing"
  shows "depositStep (step e (AllowanceReread i r) s) = DepositError
         \<and> errorMessage (step e (AllowanceReread i r) s) = simulationErrorApproval"
proof -
  let ?s1 = "handle e (AllowanceReread i r) s"
  have "depositStep ?s1 = DepositError" "errorMessage ?s1 = simulationErrorApproval"
    "vaultTx ?s1 = vaultTx s" "withdrawStep ?s1 = withdrawStep s"
    using assms(2) by (auto simp: allowanceRereadDone_def)
  then show ?thesis
    using assms commit_failed [of ?s1 e] by (simp add: step_def)
qed

lemma explorer_message: "includes_str simulationErrorApproval ''Please check Arbiscan to verify''"
  by code_simp

text \<open>
  Claim C4, as amended. When the approval write fails with a message that holds the
  wallet-simulation signature and no word of the rejection vocabulary (which is tested
  first), the re-read of the allowance is started. When the re-read allowance is at least
  the requested positive amount, the deposit step becomes depositing and the oracle is
  asked, without an action of the user. When the re-read gives nothing or zero, the
  attempt ends in the error step with the message that asks to check Arbiscan (provided
  the vault write hook holds no success of an earlier transaction and no withdrawal is in
  progress).
\<close>

theorem simulation_error_recovery:
  "(isPending (usdcTx s) \<and> depositStep s = Approving \<and> isMetaMaskSimulationError m \<and>
      \<not> isUserRejection m \<longrightarrow>
      allowanceRereads (step e (UsdcWriteFailed m) s) = allowanceRereads s @ [closureOf s])
   \<and> (i < length (allowanceRereads s) \<and> c_address (allowanceRereads s ! i) = Some a \<and> a \<noteq> [] \<and>
      c_chainId (allowanceRereads s ! i) = Some cid \<and> cid \<noteq> 0 \<and>
      c_depositAmount (allowanceRereads s ! i) \<noteq> [] \<and>
      isValidAmount e (c_depositAmount (allowanceRereads s ! i)) \<and>
      parseUnits e (c_depositAmount (allowanceRereads s ! i)) 6 = Inr w \<and> 0 < w \<and> w \<le> n \<longrightarrow>
        depositStep (step e (AllowanceReread i (Some n)) s) = Depositing
        \<and> oracleRequests (step e (AllowanceReread i (Some n)) s) = oracleRequests s @ [(w, a, cid)])
   \<and> (i < length (allowanceRereads s) \<and> (r = None \<or> r = Some 0) \<and> \<not> isTxSuccess (vaultTx s) \<and>
      withdrawStep s \<noteq> Withdrawing \<longrightarrow>
        depositStep (step e (AllowanceReread i r) s) = DepositError
        \<and> errorMessage (step e (AllowanceReread i r) s) = simulationErrorApproval)
   \<and> includes_str simulationErrorApproval ''Please check Arbiscan to verify''"
  using simulation_reread_started [of s m e]
    simulation_reread_sufficient [of i s a cid e w n]
    simulation_reread_unchanged [of i s r e] explorer_message
  by blast

text \<open>The amended statement of C4 used along a deposit whose approval fails in the wallet.\<close>

theorem simulation_error_recovery_witness:
  "isPending (usdcTx (run digitsEnv (take 3 (recoveryRun None)) (initial user 421614 None)))
   \<and> depositStep (run digitsEnv (take 3 (recoveryRun None)) (initial user 421614 None)) = Approving
   \<and> isMetaMaskSimulationError ''Internal JSON-RPC error''
   \<and> \<not> isUserRejection ''Internal JSON-RPC error''
   \<and> allowanceRereads (step digitsEnv (UsdcWriteFailed ''Internal JSON-RPC error'')
        (run digitsEnv (take 3 (recoveryRun None)) (initial user 421614 None)))
       = [\<lparr>c_address = Some user, c_chainId = Some 421614, c_depositAmount = ''10''\<rparr>]
   \<and> parseUnits digitsEnv ''10'' 6 = Inr 10000000
   \<and> depositStep (step digitsEnv (AllowanceReread 0 (Some maxAmount))
        (run digitsEnv (take 4 (recoveryRun None)) (initial user 421614 None))) = Depositing
   \<and> oracleRequests (step digitsEnv (AllowanceReread 0 (Some maxAmount))
        (run digitsEnv (take 4 (recoveryRun None)) (initial user 421614 None)))
       = [(10000000, user, 421614)]
   \<and> \<not> isTxSuccess (vaultTx (run digitsEnv (take 4 (recoveryRun None)) (initial user 421614 None)))
   \<and> withdrawStep (run digitsEnv (take 4 (recoveryRun None)) (initial user 421614 None)) \<noteq> Withdrawing
   \<and> depositStep (step digitsEnv (AllowanceReread 0 (Some 0))
        (run digitsEnv (take 4 (recoveryRun None)) (initial user 421614 None))) = DepositError
   \<and> errorMessage (step digitsEnv (AllowanceReread 0 (Some 0))
        (run digitsEnv (take 4 (recoveryRun None)) (initial user 421614 None))) = simulationErrorApproval"
proof -
  let ?s3 = "run digitsEnv (take 3 (recoveryRun None)) (initial user 421614 None)"
  let ?s4 = "run digitsEnv (take 4 (recoveryRun None)) (initial user 421614 None)"
  have a: "isPending (usdcTx ?s3)" "depositStep ?s3 = Approving"
    "isMetaMaskSimulationError ''Internal JSON-RPC error''"
    "\<not> isUserRejection ''Internal JSON-RPC error''"
    "closureOf ?s3 = \<lparr>c_address = Some user, c_chainId = Some 421614, c_depositAmount = ''10''\<rparr>"
    "allowanceRereads ?s3 = []"
    by code_simp+
  have b: "0 < length (allowanceRereads ?s4)" "c_address (allowanceRereads ?s4 ! 0) = Some user"
    "user \<noteq> []" "c_chainId (allowanceRereads ?s4 ! 0) = Some 421614"
    "c_depositAmount (allowanceRereads ?s4 ! 0) = ''10''" "isValidAmount digitsEnv ''10''"
    "parseUnits digitsEnv ''10'' 6 = Inr 10000000" "(10000000::int) \<le> maxAmount"
    "oracleRequests ?s4 = []"
    by code_simp+
  have c: "\<not> isTxSuccess (vaultTx ?s4)" "withdrawStep ?s4 \<noteq> Withdrawing"
    by code_simp+
  have 1: "allowanceRereads (step digitsEnv (UsdcWriteFailed ''Internal JSON-RPC error'') ?s3)
      = allowanceRereads ?s3 @ [closureOf ?s3]"
    using a simulation_error_recovery [where s = ?s3 and e = digitsEnv
        and m = "''Internal JSON-RPC error''"]
    by blast
  have 2: "depositStep (step digitsEnv (AllowanceReread 0 (Some maxAmount)) ?s4) = Depositing
      \<and> oracleRequests (step digitsEnv (AllowanceReread 0 (Some maxAmount)) ?s4)
          = oracleRequests ?s4 @ [(10000000, user, 421614)]"
    using b simulation_error_recovery [where s = ?s4 and e = digitsEnv and i = 0 and a = user
        and cid = 421614 and w = 10000000 and n = maxAmount]
    by simp
  have 3: "depositStep (step digitsEnv (AllowanceReread 0 (Some 0)) ?s4) = DepositError
      \<and> errorMessage (step digitsEnv (AllowanceReread 0 (Some 0)) ?s4) = simulationErrorApproval"
    using b(1) c simulation_error_recovery [where s = ?s4 and e = digitsEnv and i = 0
        and r = "Some 0"]
    by blast
  show ?thesis using a b c 1 2 3 by simp
qed

text \<open>
  A failure message with the simulation signature that also holds the word "denied" is
  treated as a rejection: no re-read of the allowance is started.
\<close>

theorem rejection_precedes_simulation_counterexample:
  "isMetaMaskSimulationError ''Request denied: Internal JSON-RPC error''
   \<and> depositStep (run digitsEnv (take 3 deniedRun) (initial user 421614 None)) = Approving
   \<and> allowanceRereads (run digitsEnv deniedRun (initial user 421614 None)) = []
   \<and> depositStep (run digitsEnv deniedRun (initial user 421614 None)) = DepositError
   \<and> errorMessage (run digitsEnv deniedRun (initial user 421614 None))
       = ''Approval was cancelled in wallet.''"
  by code_simp

end
